theory Spec2Isabelle
  imports Main
begin

section \<open>Python values, framework objects and the world\<close>

text \<open>
  The source is one Python file: the abstract class \<open>BaseModel\<close> (lifecycle glue over a
  tensor framework) and the stub class \<open>live_speech_portraits\<close>. The embedding keeps the
  attributes that \<open>BaseModel.__init__\<close> assigns as typed record fields and the attributes
  that subclasses add (networks, losses, visuals) as a dictionary; \<open>getattr\<close> reads both,
  and the methods of the class. It keeps the network objects in a store indexed by address
  (two attribute names may refer to the same network), the checkpoint files on disk as a
  map from paths, and what the code prints or asks of the file system as a log.
\<close>

datatype error =
  TypeError | ValueError | AttributeError | KeyError | IndexError | FrameworkError nat

type_synonym addr = nat

text \<open>
  Values that the code keeps in its name lists and dynamic attributes. \<open>PRef a\<close> is a
  reference to the framework object at address \<open>a\<close>; \<open>POpaque\<close> stands for any other
  object that is neither a string nor subscriptable (a float, for instance), identified
  by a tag.
\<close>

datatype pyval = PNone | PBool bool | PInt int | PStr string | PRef addr | POpaque nat

datatype tensor = Tensor (numel: nat) (content: nat)

text \<open>
  Framework objects. A module has a class name, a training flag and named members:
  parameters, buffers and child modules, any of which may be \<open>None\<close>. An optimizer is
  kept as far as the code reads it: its list of parameter-group dictionaries.
\<close>

datatype pyobj =
    ONone
  | OParam tensor
  | OBuffer tensor
  | OModule (cls_name: string) (training: bool) (members: "(string \<times> pyobj) list")
  | OOptimizer (param_groups: "(string \<times> pyval) list list")

datatype device = Cpu | Cuda int

record options =
  opt_gpu_ids :: "int list"
  opt_isTrain :: bool
  opt_checkpoints_dir :: string
  opt_name :: string
  opt_lr_policy :: string
  opt_continue_train :: bool
  opt_load_epoch :: pyval
  opt_verbose :: bool

record state_dict =
  entries :: "(string \<times> tensor) list"
  has_metadata :: bool

datatype message =
    MsgLoading string
  | MsgNoWeights string
  | MsgNetworksInitialized
  | MsgNet pyobj
  | MsgTotalParams string nat
  | MsgRule
  | MsgLearningRate string

datatype event =
    PathExists string
  | TorchLoad string device
  | LoadStateDict pyval state_dict
  | SchedulerStep nat "pyval option"
  | Print message

text \<open>
  The object \<open>self\<close>. The attributes that \<open>BaseModel.__init__\<close> assigns are the typed
  fields; \<open>schedulers\<close> is \<open>None\<close> until \<open>BaseModel.setup\<close> assigns the attribute.
  \<open>attrs\<close> holds every other attribute that \<open>getattr\<close> finds on the object under a
  name that is not one of these fields: what a subclass assigns or defines and what the
  object inherits from outside this file.
\<close>

record 's model =
  opt :: options
  gpu_ids :: "int list"
  isTrain :: bool
  device :: device
  save_dir :: string
  loss_names :: "pyval list"
  model_names :: "pyval list"
  visual_names :: "pyval list"
  optimizers :: "addr list"
  image_paths :: "pyval list"
  metric :: pyval
  schedulers :: "'s list option"
  attrs :: "string \<rightharpoonup> pyval"

text \<open>
  What \<open>getattr(self, name)\<close> returns: a plain value, or the object that one of the
  typed fields holds, or a method of the class.
\<close>

datatype 's attr =
    AVal pyval
  | AList "pyval list"
  | ADevice device
  | AOptions options
  | ASchedulers "'s list"
  | AMethod string

text \<open>
  A method that changes the world ends normally or raises; what it did before raising
  stays done, so both outcomes carry the world.
\<close>

datatype 'w outcome = Done 'w | Raised error 'w

record 's world =
  self :: "'s model"
  heap :: "addr \<Rightarrow> pyobj"
  files :: "string \<rightharpoonup> state_dict"
  cudnn_enabled :: bool
  cudnn_benchmark :: bool
  log :: "event list"

section \<open>Library functions of Python used by the code\<close>

text \<open>\<open>os.path.join a b\<close> on a POSIX system.\<close>

definition path_join :: "string \<Rightarrow> string \<Rightarrow> string" where
  "path_join a b =
     (if b \<noteq> [] \<and> hd b = CHR ''/'' then b
      else if a = [] \<or> last a = CHR ''/'' then a @ b
      else a @ ''/'' @ b)"



text \<open>
  An \<open>OrderedDict\<close> is an association list with distinct keys, oldest entry first.
  \<open>d[k] = v\<close> overwrites in place when \<open>k\<close> is present and appends otherwise;
  \<open>d.pop(k)\<close> removes the entry and returns its value, raising \<open>KeyError\<close> when absent.
\<close>

fun od_set :: "'k \<Rightarrow> 'v \<Rightarrow> ('k \<times> 'v) list \<Rightarrow> ('k \<times> 'v) list" where
  "od_set k v [] = [(k, v)]"
| "od_set k v ((k', v') # d) = (if k' = k then (k, v) # d else (k', v') # od_set k v d)"

fun od_del :: "'k \<Rightarrow> ('k \<times> 'v) list \<Rightarrow> ('k \<times> 'v) list" where
  "od_del k [] = []"
| "od_del k ((k', v') # d) = (if k' = k then d else (k', v') # od_del k d)"

definition od_pop :: "'k \<Rightarrow> ('k \<times> 'v) list \<Rightarrow> error + ('v \<times> ('k \<times> 'v) list)" where
  "od_pop k d = (case map_of d k of None \<Rightarrow> Inl KeyError | Some v \<Rightarrow> Inr (v, od_del k d))"

section \<open>BaseModel\<close>

subsection \<open>\<open>__init__\<close>\<close>

text \<open>
  \<open>torch.device('cuda:{}'.format(i))\<close> is represented by \<open>Cuda i\<close> and
  \<open>torch.device('cpu')\<close> by \<open>Cpu\<close>. The other attributes of \<open>self\<close> are left as they are.
\<close>

definition BaseModel_init :: "options \<Rightarrow> 's world \<Rightarrow> 's world" where
  "BaseModel_init op w =
     w\<lparr> self := (self w)\<lparr>
           opt := op,
           gpu_ids := opt_gpu_ids op,
           isTrain := opt_isTrain op,
           device := (if length (opt_gpu_ids op) > 0 then Cuda (opt_gpu_ids op ! 0) else Cpu),
           save_dir := path_join (opt_checkpoints_dir op) (opt_name op),
           loss_names := [],
           model_names := [],
           visual_names := [],
           optimizers := [],
           image_paths := [],
           metric := PInt 0 \<rparr>,
        cudnn_enabled := True,
        cudnn_benchmark := True \<rparr>"

subsection \<open>Attribute access\<close>

text \<open>
  The methods that the class \<open>BaseModel\<close> defines, under the names by which \<open>getattr\<close>
  finds them (the private method under its mangled name).
\<close>

definition BaseModel_methods :: "string list" where
  "BaseModel_methods =
     [''__init__'', ''modify_commandline_options'', ''set_input'', ''forward'',
      ''optimize_parameters'', ''setup'', ''train'', ''eval'', ''test'', ''compute_visuals'',
      ''get_image_paths'', ''update_learning_rate'', ''get_current_visuals'',
      ''get_current_losses'', ''save_networks'',
      ''_BaseModel__patch_instance_norm_state_dict'', ''load_networks'', ''print_networks'',
      ''set_requires_grad'']"

text \<open>
  \<open>getattr(self, name)\<close>: the attributes of the instance come first, that is the fields
  assigned by \<open>__init__\<close> and then \<open>attrs\<close>; then the methods of the class; a name found
  nowhere raises \<open>AttributeError\<close>.
\<close>

definition getattr_self :: "'s model \<Rightarrow> string \<Rightarrow> error + 's attr" where
  "getattr_self m n =
     (if n = ''opt'' then Inr (AOptions (opt m))
      else if n = ''gpu_ids'' then Inr (AList (map PInt (gpu_ids m)))
      else if n = ''isTrain'' then Inr (AVal (PBool (isTrain m)))
      else if n = ''device'' then Inr (ADevice (device m))
      else if n = ''save_dir'' then Inr (AVal (PStr (save_dir m)))
      else if n = ''loss_names'' then Inr (AList (loss_names m))
      else if n = ''model_names'' then Inr (AList (model_names m))
      else if n = ''visual_names'' then Inr (AList (visual_names m))
      else if n = ''optimizers'' then Inr (AList (map PRef (optimizers m)))
      else if n = ''image_paths'' then Inr (AList (image_paths m))
      else if n = ''metric'' then Inr (AVal (metric m))
      else if n = ''schedulers'' then
        (case schedulers m of None \<Rightarrow> Inl AttributeError | Some ss \<Rightarrow> Inr (ASchedulers ss))
      else
        (case attrs m n of
           Some v \<Rightarrow> Inr (AVal v)
         | None \<Rightarrow> if n \<in> set BaseModel_methods then Inr (AMethod n) else Inl AttributeError))"



text \<open>
  The loop header shared by the methods:
  \<^verbatim>\<open>for name in names: if isinstance(name, str): body\<close>.
  An exception raised by the body ends the loop.
\<close>

fun for_names :: "(string \<Rightarrow> 'w \<Rightarrow> 'w outcome) \<Rightarrow> pyval list \<Rightarrow> 'w \<Rightarrow> 'w outcome" where
  "for_names body [] w = Done w"
| "for_names body (PStr n # ns) w =
     (case body n w of Raised e w' \<Rightarrow> Raised e w' | Done w' \<Rightarrow> for_names body ns w')"
| "for_names body (_ # ns) w = for_names body ns w"

subsection \<open>\<open>train\<close> and \<open>eval\<close>\<close>

text \<open>
  The framework's \<open>Module.train(mode)\<close> sets the flag of the module and of every module
  below it; \<open>Module.eval()\<close> is \<open>train(False)\<close>. An object that is not a module has no
  such method, and neither has any other value that \<open>getattr(self, name)\<close> returns.
\<close>

primrec set_mode :: "bool \<Rightarrow> pyobj \<Rightarrow> pyobj" where
  "set_mode b ONone = ONone"
| "set_mode b (OParam t) = OParam t"
| "set_mode b (OBuffer t) = OBuffer t"
| "set_mode b (OModule c t ms) = OModule c b (map (map_prod id (set_mode b)) ms)"
| "set_mode b (OOptimizer gs) = OOptimizer gs"

fun is_module :: "pyobj \<Rightarrow> bool" where
  "is_module (OModule c t ms) = True"
| "is_module _ = False"

fun net_train :: "bool \<Rightarrow> 's attr \<Rightarrow> 's world \<Rightarrow> 's world outcome" where
  "net_train b (AVal (PRef a)) w =
     (if is_module (heap w a) then Done (w\<lparr>heap := (heap w)(a := set_mode b (heap w a))\<rparr>)
      else Raised AttributeError w)"
| "net_train b _ w = Raised AttributeError w"

definition train_body :: "string \<Rightarrow> 's world \<Rightarrow> 's world outcome" where
  "train_body name w =
     (case getattr_self (self w) name of
        Inl e \<Rightarrow> Raised e w
      | Inr net \<Rightarrow> net_train True net w)"

definition train :: "'s world \<Rightarrow> 's world outcome" where
  "train w = for_names train_body (model_names (self w)) w"

definition eval_body :: "string \<Rightarrow> 's world \<Rightarrow> 's world outcome" where
  "eval_body name w =
     (case getattr_self (self w) name of
        Inl e \<Rightarrow> Raised e w
      | Inr net \<Rightarrow> net_train False net w)"

definition eval_model :: "'s world \<Rightarrow> 's world outcome" where
  "eval_model w = for_names eval_body (model_names (self w)) w"

subsection \<open>\<open>get_current_visuals\<close> and \<open>get_current_losses\<close>\<close>

text \<open>
  Both methods build a fresh \<open>OrderedDict\<close>. Each returns the dictionary, or the
  exception raised, together with the world as the call leaves it.
\<close>

fun visuals_loop ::
  "'s model \<Rightarrow> pyval list \<Rightarrow> (string \<times> 's attr) list \<Rightarrow> error + (string \<times> 's attr) list" where
  "visuals_loop m [] ret = Inr ret"
| "visuals_loop m (PStr name # ns) ret =
     (case getattr_self m name of
        Inl e \<Rightarrow> Inl e
      | Inr v \<Rightarrow> visuals_loop m ns (od_set name v ret))"
| "visuals_loop m (_ # ns) ret = visuals_loop m ns ret"

definition get_current_visuals ::
  "'s world \<Rightarrow> (error + (string \<times> 's attr) list) \<times> 's world" where
  "get_current_visuals w = (visuals_loop (self w) (visual_names (self w)) [], w)"

text \<open>
  \<open>float(x)\<close> is the language's conversion; it is a parameter \<open>to_float\<close> here, which may
  raise.
\<close>

fun losses_loop ::
  "('s attr \<Rightarrow> error + 'f) \<Rightarrow> 's model \<Rightarrow> pyval list \<Rightarrow> (string \<times> 'f) list
     \<Rightarrow> error + (string \<times> 'f) list" where
  "losses_loop to_float m [] ret = Inr ret"
| "losses_loop to_float m (PStr name # ns) ret =
     (case getattr_self m (''loss_'' @ name) of
        Inl e \<Rightarrow> Inl e
      | Inr v \<Rightarrow>
          (case to_float v of
             Inl e \<Rightarrow> Inl e
           | Inr x \<Rightarrow> losses_loop to_float m ns (od_set name x ret)))"
| "losses_loop to_float m (_ # ns) ret = losses_loop to_float m ns ret"

definition get_current_losses ::
  "('s attr \<Rightarrow> error + 'f) \<Rightarrow> 's world \<Rightarrow> (error + (string \<times> 'f) list) \<times> 's world" where
  "get_current_losses to_float w =
     (losses_loop to_float (self w) (loss_names (self w)) [], w)"

subsection \<open>\<open>__patch_instance_norm_state_dict\<close>\<close>



subsection \<open>\<open>load_networks\<close>\<close>

text \<open>
  Lines 208 to 212: \<open>epoch[-3:]\<close> is the last three characters of a string (the whole
  string when it is shorter) and raises \<open>TypeError\<close> on a value that is not
  subscriptable; \<open>'%s_%s.pkl' % (epoch, name)\<close> formats a string epoch as itself.
\<close>

fun load_path :: "string \<Rightarrow> pyval \<Rightarrow> string \<Rightarrow> error + string" where
  "load_path sdir (PStr e) name =
     Inr (if drop (length e - 3) e = ''pkl'' then e
          else path_join sdir (e @ ''_'' @ name @ ''.pkl''))"
| "load_path sdir _ name = Inl TypeError"

text \<open>
  Lines 219 and 220, run on the CPU device only: the loop over a copy of the keys that
  pops each key and stores its value under \<open>key[7:]\<close>.
\<close>

fun strip_loop ::
  "string list \<Rightarrow> (string \<times> tensor) list \<Rightarrow> error + (string \<times> tensor) list" where
  "strip_loop [] d = Inr d"
| "strip_loop (key # ks) d =
     (case od_pop key d of
        Inl e \<Rightarrow> Inl e
      | Inr (v, d') \<Rightarrow> strip_loop ks (od_set (drop 7 key) v d'))"

text \<open>
  Lines 218 to 222, the state dictionary that reaches \<open>load_state_dict\<close>: keys rewritten
  on the CPU device, the \<open>_metadata\<close> attribute deleted when present.
\<close>

definition prepare_state_dict :: "device \<Rightarrow> state_dict \<Rightarrow> error + state_dict" where
  "prepare_state_dict dev sd =
     (case (if dev = Cpu then strip_loop (map fst (entries sd)) (entries sd)
            else Inr (entries sd)) of
        Inl e \<Rightarrow> Inl e
      | Inr es \<Rightarrow> Inr \<lparr>entries = es, has_metadata = False\<rparr>)"

text \<open>
  \<open>net.load_state_dict(state_dict, strict=False)\<close> belongs to the framework: it is the
  parameter \<open>lsd\<close>, which returns the updated object or raises. A value that is not a
  reference to a framework object has no such method. Every file of the model holds a
  state dictionary, so \<open>torch.load\<close> returns it.
\<close>

fun net_load_state_dict ::
  "(state_dict \<Rightarrow> pyobj \<Rightarrow> error + pyobj) \<Rightarrow> 's attr \<Rightarrow> state_dict \<Rightarrow> 's world
     \<Rightarrow> 's world outcome" where
  "net_load_state_dict lsd (AVal (PRef a)) sd w =
     (case lsd sd (heap w a) of
        Inl e \<Rightarrow> Raised e (w\<lparr>log := log w @ [LoadStateDict (PRef a) sd]\<rparr>)
      | Inr ob \<Rightarrow> Done (w\<lparr>heap := (heap w)(a := ob),
                            log := log w @ [LoadStateDict (PRef a) sd]\<rparr>))"
| "net_load_state_dict lsd _ sd w = Raised AttributeError w"

definition load_one ::
  "(state_dict \<Rightarrow> pyobj \<Rightarrow> error + pyobj) \<Rightarrow> pyval \<Rightarrow> string \<Rightarrow> 's world
     \<Rightarrow> 's world outcome" where
  "load_one lsd epoch name w =
     (case load_path (save_dir (self w)) epoch name of
        Inl e \<Rightarrow> Raised e w
      | Inr p \<Rightarrow>
          (case getattr_self (self w) name of
             Inl e \<Rightarrow> Raised e w
           | Inr net \<Rightarrow>
               (case files w p of
                  Some loaded \<Rightarrow>
                    (case prepare_state_dict (device (self w)) loaded of
                       Inl e \<Rightarrow>
                         Raised e (w\<lparr>log := log w @ [PathExists p,
                                                      TorchLoad p (device (self w))]\<rparr>)
                     | Inr sd \<Rightarrow>
                         net_load_state_dict lsd net sd
                           (w\<lparr>log := log w @ [PathExists p, TorchLoad p (device (self w)),
                                              Print (MsgLoading p)]\<rparr>))
                | None \<Rightarrow>
                    if isTrain (self w) = False
                    then Raised ValueError
                           (w\<lparr>log := log w @ [PathExists p, Print (MsgNoWeights p)]\<rparr>)
                    else Done (w\<lparr>log := log w @ [PathExists p, Print (MsgNoWeights p)]\<rparr>))))"

definition load_networks ::
  "(state_dict \<Rightarrow> pyobj \<Rightarrow> error + pyobj) \<Rightarrow> pyval \<Rightarrow> 's world \<Rightarrow> 's world outcome" where
  "load_networks lsd epoch w = for_names (load_one lsd epoch) (model_names (self w)) w"

subsection \<open>\<open>print_networks\<close>\<close>

text \<open>\<open>net.parameters()\<close> yields the parameters of the module and of the modules below it.\<close>

primrec count_params :: "pyobj \<Rightarrow> nat" where
  "count_params ONone = 0"
| "count_params (OParam t) = numel t"
| "count_params (OBuffer t) = 0"
| "count_params (OModule c t ms) = sum_list (map snd (map (map_prod id count_params) ms))"
| "count_params (OOptimizer gs) = 0"

fun print_net :: "bool \<Rightarrow> string \<Rightarrow> 's attr \<Rightarrow> 's world \<Rightarrow> 's world outcome" where
  "print_net verbose name (AVal (PRef a)) w =
     (if is_module (heap w a) then
        Done (w\<lparr>log := log w @ (if verbose then [Print (MsgNet (heap w a))] else []) @
                         [Print (MsgTotalParams name (count_params (heap w a)))]\<rparr>)
      else Raised AttributeError w)"
| "print_net verbose name _ w = Raised AttributeError w"

definition print_body :: "bool \<Rightarrow> string \<Rightarrow> 's world \<Rightarrow> 's world outcome" where
  "print_body verbose name w =
     (case getattr_self (self w) name of
        Inl e \<Rightarrow> Raised e w
      | Inr net \<Rightarrow> print_net verbose name net w)"

definition print_networks :: "bool \<Rightarrow> 's world \<Rightarrow> 's world outcome" where
  "print_networks verbose w =
     (case for_names (print_body verbose) (model_names (self w))
             (w\<lparr>log := log w @ [Print MsgNetworksInitialized]\<rparr>) of
        Raised e w' \<Rightarrow> Raised e w'
      | Done w' \<Rightarrow> Done (w'\<lparr>log := log w' @ [Print MsgRule]\<rparr>))"

subsection \<open>\<open>BaseModel.setup\<close>\<close>

text \<open>
  \<open>networks.get_scheduler\<close> is defined outside this file: it is the parameter \<open>gs\<close>,
  which takes the optimizer, the options and the store of framework objects, and returns
  a scheduler and the store as the call leaves it, or raises. The list comprehension calls
  it on the optimizers from left to right; when a call raises, the attribute
  \<open>schedulers\<close> is not assigned.
\<close>

fun make_schedulers ::
  "(addr \<Rightarrow> options \<Rightarrow> (addr \<Rightarrow> pyobj) \<Rightarrow> error + 's \<times> (addr \<Rightarrow> pyobj)) \<Rightarrow> options
     \<Rightarrow> addr list \<Rightarrow> (addr \<Rightarrow> pyobj) \<Rightarrow> (error + 's list) \<times> (addr \<Rightarrow> pyobj)" where
  "make_schedulers gs op [] h = (Inr [], h)"
| "make_schedulers gs op (optimizer # rest) h =
     (case gs optimizer op h of
        Inl e \<Rightarrow> (Inl e, h)
      | Inr (s, h1) \<Rightarrow>
          (case make_schedulers gs op rest h1 of
             (Inl e, h2) \<Rightarrow> (Inl e, h2)
           | (Inr ss, h2) \<Rightarrow> (Inr (s # ss), h2)))"

definition BaseModel_setup ::
  "(addr \<Rightarrow> options \<Rightarrow> (addr \<Rightarrow> pyobj) \<Rightarrow> error + 's \<times> (addr \<Rightarrow> pyobj))
     \<Rightarrow> (state_dict \<Rightarrow> pyobj \<Rightarrow> error + pyobj) \<Rightarrow> options \<Rightarrow> 's world \<Rightarrow> 's world outcome" where
  "BaseModel_setup gs lsd op w =
     (case (if isTrain (self w) then
              (case make_schedulers gs op (optimizers (self w)) (heap w) of
                 (Inl e, h) \<Rightarrow> Raised e (w\<lparr>heap := h\<rparr>)
               | (Inr ss, h) \<Rightarrow> Done (w\<lparr>self := (self w)\<lparr>schedulers := Some ss\<rparr>, heap := h\<rparr>))
            else Done w) of
        Raised e w1 \<Rightarrow> Raised e w1
      | Done w1 \<Rightarrow>
          (case (if \<not> isTrain (self w1) \<or> opt_continue_train op
                 then load_networks lsd (opt_load_epoch op) w1 else Done w1) of
             Raised e w2 \<Rightarrow> Raised e w2
           | Done w2 \<Rightarrow> print_networks (opt_verbose op) w2))"

subsection \<open>\<open>update_learning_rate\<close>\<close>

text \<open>
  \<open>scheduler.step\<close> belongs to the framework: it is the parameter \<open>step\<close>, which takes the
  scheduler, the optional argument and the store of framework objects, and returns the
  scheduler and the store as the call leaves them, or raises. The stepped scheduler is
  the same object of the list \<open>self.schedulers\<close>, so it is written back at its position
  \<open>i\<close>; the log records each call with that position.
\<close>

fun step_loop ::
  "('s \<Rightarrow> pyval option \<Rightarrow> (addr \<Rightarrow> pyobj) \<Rightarrow> error + 's \<times> (addr \<Rightarrow> pyobj)) \<Rightarrow> nat \<Rightarrow> 's list
     \<Rightarrow> 's world \<Rightarrow> 's world outcome" where
  "step_loop step i [] w = Done w"
| "step_loop step i (scheduler # rest) w =
     (let arg = (if opt_lr_policy (opt (self w)) = ''plateau''
                 then Some (metric (self w)) else None) in
      case step scheduler arg (heap w) of
        Inl e \<Rightarrow> Raised e (w\<lparr>log := log w @ [SchedulerStep i arg]\<rparr>)
      | Inr (scheduler', h) \<Rightarrow>
          step_loop step (Suc i) rest
            (w\<lparr>self := (self w)\<lparr>schedulers :=
                          map_option (\<lambda>ss. ss[i := scheduler']) (schedulers (self w))\<rparr>,
               heap := h,
               log := log w @ [SchedulerStep i arg]\<rparr>))"

text \<open>\<open>self.optimizers[0].param_groups[0]['lr']\<close>.\<close>

definition read_lr :: "addr list \<Rightarrow> (addr \<Rightarrow> pyobj) \<Rightarrow> error + pyval" where
  "read_lr os h =
     (case os of
        [] \<Rightarrow> Inl IndexError
      | a # _ \<Rightarrow>
          (case h a of
             OOptimizer groups \<Rightarrow>
               (case groups of
                  [] \<Rightarrow> Inl IndexError
                | g # _ \<Rightarrow>
                    (case map_of g ''lr'' of None \<Rightarrow> Inl KeyError | Some lr \<Rightarrow> Inr lr))
           | _ \<Rightarrow> Inl AttributeError))"

text \<open>
  \<open>'learning rate = %.7f' % lr\<close> is the language's formatting: it is the parameter
  \<open>fmt\<close>, which returns the formatted number or raises (\<open>TypeError\<close> for a value that
  is not a number). The line is printed only when the formatting succeeds.
\<close>

definition update_learning_rate ::
  "('s \<Rightarrow> pyval option \<Rightarrow> (addr \<Rightarrow> pyobj) \<Rightarrow> error + 's \<times> (addr \<Rightarrow> pyobj))
     \<Rightarrow> (pyval \<Rightarrow> error + string) \<Rightarrow> 's world \<Rightarrow> 's world outcome" where
  "update_learning_rate step fmt w =
     (case schedulers (self w) of
        None \<Rightarrow> Raised AttributeError w
      | Some ss \<Rightarrow>
          (case step_loop step 0 ss w of
             Raised e w1 \<Rightarrow> Raised e w1
           | Done w1 \<Rightarrow>
               (case read_lr (optimizers (self w1)) (heap w1) of
                  Inl e \<Rightarrow> Raised e w1
                | Inr lr \<Rightarrow>
                    (case fmt lr of
                       Inl e \<Rightarrow> Raised e w1
                     | Inr number \<Rightarrow>
                         Done (w1\<lparr>log := log w1 @
                                 [Print (MsgLearningRate (''learning rate = '' @ number))]\<rparr>)))))"

section \<open>live_speech_portraits\<close>

text \<open>
  \<open>AbstractTalkingFace\<close> is defined outside this file: its initializer is the parameter
  \<open>super_init\<close>, which takes the state before construction and returns the outcome of
  the call. The constructor calls it without arguments and returns.
\<close>

definition live_speech_portraits_init ::
  "('st \<Rightarrow> 'st outcome) \<Rightarrow> 'config \<Rightarrow> 'st \<Rightarrow> 'st outcome" where
  "live_speech_portraits_init super_init config st = super_init st"

section \<open>Notions used to state the properties\<close>

text \<open>The string entries of a name list, in order.\<close>

fun str_entries :: "pyval list \<Rightarrow> string list" where
  "str_entries [] = []"
| "str_entries (PStr n # ns) = n # str_entries ns"
| "str_entries (_ # ns) = str_entries ns"

text \<open>A list without its repetitions: every element at its first position.\<close>

fun first_occurrences :: "'a list \<Rightarrow> 'a list" where
  "first_occurrences [] = []"
| "first_occurrences (x # xs) = x # removeAll x (first_occurrences xs)"


text \<open>The path that an event of the log accesses in the file system, if any.\<close>

fun event_path :: "event \<Rightarrow> string option" where
  "event_path (PathExists p) = Some p"
| "event_path (TorchLoad p d) = Some p"
| "event_path _ = None"

text \<open>The world of an outcome, and whether it is an exception.\<close>

fun world_of :: "'w outcome \<Rightarrow> 'w" where
  "world_of (Done w) = w"
| "world_of (Raised e w) = w"

fun raised :: "'w outcome \<Rightarrow> error option" where
  "raised (Done w) = None"
| "raised (Raised e w) = Some e"

text \<open>The argument that \<open>update_learning_rate\<close> passes to \<open>scheduler.step\<close>, if any.\<close>

definition step_arg :: "'s world \<Rightarrow> pyval option" where
  "step_arg w =
     (if opt_lr_policy (opt (self w)) = ''plateau'' then Some (metric (self w)) else None)"

text \<open>
  Stepping a list of schedulers once each, from left to right, every call on the store
  that the call before it left.
\<close>

fun steps_in_order ::
  "('s \<Rightarrow> pyval option \<Rightarrow> (addr \<Rightarrow> pyobj) \<Rightarrow> error + 's \<times> (addr \<Rightarrow> pyobj)) \<Rightarrow> pyval option
     \<Rightarrow> 's list \<Rightarrow> (addr \<Rightarrow> pyobj) \<Rightarrow> error + 's list \<times> (addr \<Rightarrow> pyobj)" where
  "steps_in_order step arg [] h = Inr ([], h)"
| "steps_in_order step arg (s # ss) h =
     (case step s arg h of
        Inl e \<Rightarrow> Inl e
      | Inr (s', h1) \<Rightarrow>
          (case steps_in_order step arg ss h1 of
             Inl e \<Rightarrow> Inl e
           | Inr (ss', h2) \<Rightarrow> Inr (s' # ss', h2)))"

section \<open>A concrete model object\<close>

text \<open>
  One generator network with an instance-normalisation layer, one optimizer, one
  scheduler (identified by the address of its optimizer), and a checkpoint saved from a
  data-parallel wrapper, whose keys start with \<open>module.\<close>.
\<close>

definition example_options :: options where
  "example_options =
     \<lparr>opt_gpu_ids = [], opt_isTrain = False, opt_checkpoints_dir = ''checkpoints'',
      opt_name = ''May'', opt_lr_policy = ''plateau'', opt_continue_train = False,
      opt_load_epoch = PStr ''latest'', opt_verbose = False\<rparr>"

definition example_net :: pyobj where
  "example_net =
     OModule ''Generator'' False
       [(''conv'', OModule ''Conv2d'' False [(''weight'', OParam (Tensor 9 1))]),
        (''norm'', OModule ''InstanceNorm2d'' False
                     [(''running_mean'', ONone), (''running_var'', OBuffer (Tensor 3 2))])]"

definition example_model :: "nat model" where
  "example_model =
     \<lparr>opt = example_options, gpu_ids = [], isTrain = False, device = Cpu,
      save_dir = ''checkpoints/May'',
      loss_names = [PStr ''G'', PInt 0, PStr ''D''],
      model_names = [PStr ''net_G'', PNone],
      visual_names = [PStr ''fake'', PInt 1, PStr ''real'', PStr ''metric'', PStr ''fake''],
      optimizers = [1], image_paths = [], metric = PInt 0, schedulers = Some [1],
      attrs = [''net_G'' \<mapsto> PRef 0, ''loss_G'' \<mapsto> POpaque 7, ''loss_D'' \<mapsto> PInt 2,
               ''fake'' \<mapsto> POpaque 1, ''real'' \<mapsto> POpaque 2]\<rparr>"

definition example_heap :: "addr \<Rightarrow> pyobj" where
  "example_heap = (\<lambda>a. ONone)(0 := example_net, 1 := OOptimizer [[(''lr'', POpaque 3)]])"

definition example_checkpoint :: state_dict where
  "example_checkpoint =
     \<lparr>entries = [(''module.conv.weight'', Tensor 9 4),
                 (''module.norm.num_batches_tracked'', Tensor 1 5)],
      has_metadata = True\<rparr>"

text \<open>A checkpoint saved from the bare network: its keys have no \<open>module.\<close> prefix.\<close>

definition plain_checkpoint :: state_dict where
  "plain_checkpoint =
     \<lparr>entries = [(''conv.weight'', Tensor 9 4), (''norm.running_var'', Tensor 3 6)],
      has_metadata = True\<rparr>"

definition example_world :: "nat world" where
  "example_world =
     \<lparr>self = example_model, heap = example_heap,
      files = [''checkpoints/May/latest_net_G.pkl'' \<mapsto> example_checkpoint],
      cudnn_enabled = False, cudnn_benchmark = False, log = []\<rparr>"

text \<open>Stand-ins for the framework's functions on this object.\<close>

definition example_lsd :: "state_dict \<Rightarrow> pyobj \<Rightarrow> error + pyobj" where
  "example_lsd sd ob = (if is_module ob then Inr ob else Inl AttributeError)"

definition example_gs :: "addr \<Rightarrow> options \<Rightarrow> (addr \<Rightarrow> pyobj) \<Rightarrow> error + nat \<times> (addr \<Rightarrow> pyobj)" where
  "example_gs a op h = Inr (a, h)"

definition example_step ::
  "nat \<Rightarrow> pyval option \<Rightarrow> (addr \<Rightarrow> pyobj) \<Rightarrow> error + nat \<times> (addr \<Rightarrow> pyobj)" where
  "example_step s arg h = Inr (s, h(s := OOptimizer [[(''lr'', POpaque 4)]]))"

fun example_float :: "nat attr \<Rightarrow> error + int" where
  "example_float (AVal (PInt i)) = Inr i"
| "example_float (AVal (POpaque n)) = Inr (int n)"
| "example_float _ = Inl TypeError"

fun example_fmt :: "pyval \<Rightarrow> error + string" where
  "example_fmt (POpaque n) = Inr (if n = 3 then ''0.0003000'' else ''0.0004000'')"
| "example_fmt _ = Inl TypeError"

section \<open>Ordered dictionaries\<close>

lemma od_set_keys: "fst ` set (od_set k v d) = insert k (fst ` set d)"
  by (induction k v d rule: od_set.induct) auto

lemma map_fst_od_set:
  "map fst (od_set k v d) = (if k \<in> fst ` set d then map fst d else map fst d @ [k])"
  by (induction k v d rule: od_set.induct) (auto simp: image_iff)

lemma map_of_od_set: "map_of (od_set k v d) = (map_of d)(k \<mapsto> v)"
  by (induction k v d rule: od_set.induct) auto

lemma od_del_keys_subset: "fst ` set (od_del k d) \<subseteq> fst ` set d"
  by (induction k d rule: od_del.induct) auto

lemma od_del_keys: "distinct (map fst d) \<Longrightarrow> fst ` set (od_del k d) = fst ` set d - {k}"
  by (induction k d rule: od_del.induct) (auto simp: image_iff)

lemma distinct_od_del: "distinct (map fst d) \<Longrightarrow> distinct (map fst (od_del k d))"
proof (induction d)
  case (Cons x d)
  then show ?case using od_del_keys_subset[of k d] by (cases x) auto
qed simp

lemma distinct_od_set: "distinct (map fst d) \<Longrightarrow> distinct (map fst (od_set k v d))"
  by (simp add: map_fst_od_set)

lemma od_set_append: "k \<notin> fst ` set xs \<Longrightarrow> od_set k v (xs @ ys) = xs @ od_set k v ys"
  by (induction xs) auto

section \<open>Device selection in \<open>__init__\<close>\<close>

text \<open>
  C3. After \<open>BaseModel.__init__(opt)\<close>, \<open>self.device\<close> is the CUDA device of the first
  entry of \<open>opt.gpu_ids\<close> when that list is not empty and the CPU device when it is
  empty: the device is a function of \<open>opt.gpu_ids\<close> alone.
\<close>

theorem BaseModel_init_device:
  "device (self (BaseModel_init op w)) =
     (case opt_gpu_ids op of [] \<Rightarrow> Cpu | i # rest \<Rightarrow> Cuda i)"
  by (simp add: BaseModel_init_def split: list.splits)

theorem BaseModel_init_device_witness:
  "device (self (BaseModel_init (example_options\<lparr>opt_gpu_ids := [2, 0]\<rparr>) example_world)) = Cuda 2
   \<and> device (self (BaseModel_init example_options example_world)) = Cpu"
  using BaseModel_init_device[of "example_options\<lparr>opt_gpu_ids := [2, 0]\<rparr>" example_world]
    BaseModel_init_device[of example_options example_world]
  by (simp add: example_options_def)

section \<open>The returned dictionaries of visuals and losses\<close>

lemma first_occurrences_set: "set (first_occurrences xs) = set xs"
  by (induction xs) auto

lemma first_occurrences_distinct: "distinct xs \<Longrightarrow> first_occurrences xs = xs"
  by (induction xs) (auto simp: first_occurrences_set)

lemma filter_removeAll: "filter P (removeAll x xs) = filter (\<lambda>y. P y \<and> y \<noteq> x) xs"
  by (induction xs) auto

lemma visuals_loop_keys:
  "visuals_loop m ns acc = Inr r \<Longrightarrow>
     map fst r = map fst acc @
       filter (\<lambda>n. n \<notin> fst ` set acc) (first_occurrences (str_entries ns))"
proof (induction m ns acc rule: visuals_loop.induct)
  case (2 m name ns ret)
  then obtain v where v: "getattr_self m name = Inr v"
    and r: "visuals_loop m ns (od_set name v ret) = Inr r"
    by (auto split: sum.splits)
  from "2.IH"[OF v r] show ?case
    by (auto simp: map_fst_od_set od_set_keys filter_removeAll intro: filter_cong)
qed auto

lemma visuals_loop_other:
  "visuals_loop m ns acc = Inr r \<Longrightarrow> n \<notin> set (str_entries ns) \<Longrightarrow> map_of r n = map_of acc n"
  by (induction m ns acc rule: visuals_loop.induct)
     (auto simp: map_of_od_set split: sum.splits)

lemma visuals_loop_values:
  "visuals_loop m ns acc = Inr r \<Longrightarrow> n \<in> set (str_entries ns) \<Longrightarrow>
     \<exists>v. getattr_self m n = Inr v \<and> map_of r n = Some v"
proof (induction m ns acc rule: visuals_loop.induct)
  case (2 m name ns ret)
  then obtain v where v: "getattr_self m name = Inr v"
    and r: "visuals_loop m ns (od_set name v ret) = Inr r"
    by (auto split: sum.splits)
  show ?case
  proof (cases "n \<in> set (str_entries ns)")
    case True
    with "2.IH"[OF v r] show ?thesis by simp
  next
    case False
    with "2.prems" have n: "n = name" by simp
    have "map_of r n = map_of (od_set name v ret) n"
      using visuals_loop_other[OF r False] .
    then show ?thesis using v n by (simp add: map_of_od_set)
  qed
qed auto

lemma visuals_loop_total:
  "(\<forall>n \<in> set (str_entries ns). \<exists>v. getattr_self m n = Inr v)
     \<Longrightarrow> \<exists>r. visuals_loop m ns acc = Inr r"
  by (induction m ns acc rule: visuals_loop.induct) auto

lemma visuals_total_iff:
  "(\<exists>r. visuals_loop m ns acc = Inr r) =
     (\<forall>n \<in> set (str_entries ns). \<exists>v. getattr_self m n = Inr v)"
  using visuals_loop_total[of ns m acc] visuals_loop_values[of m ns acc]
  by blast

lemma losses_loop_keys:
  "losses_loop tf m ns acc = Inr r \<Longrightarrow>
     map fst r = map fst acc @
       filter (\<lambda>n. n \<notin> fst ` set acc) (first_occurrences (str_entries ns))"
proof (induction tf m ns acc rule: losses_loop.induct)
  case (2 tf m name ns ret)
  then obtain v x where v: "getattr_self m (''loss_'' @ name) = Inr v" and x: "tf v = Inr x"
    and r: "losses_loop tf m ns (od_set name x ret) = Inr r"
    by (auto split: sum.splits)
  from "2.IH"[OF v x r] show ?case
    by (auto simp: map_fst_od_set od_set_keys filter_removeAll intro: filter_cong)
qed auto

lemma losses_loop_other:
  "losses_loop tf m ns acc = Inr r \<Longrightarrow> n \<notin> set (str_entries ns) \<Longrightarrow> map_of r n = map_of acc n"
  by (induction tf m ns acc rule: losses_loop.induct)
     (auto simp: map_of_od_set split: sum.splits)

lemma losses_loop_values:
  "losses_loop tf m ns acc = Inr r \<Longrightarrow> n \<in> set (str_entries ns) \<Longrightarrow>
     \<exists>v x. getattr_self m (''loss_'' @ n) = Inr v \<and> tf v = Inr x \<and> map_of r n = Some x"
proof (induction tf m ns acc arbitrary: rule: losses_loop.induct)
  case (2 tf m name ns ret)
  then obtain v x where v: "getattr_self m (''loss_'' @ name) = Inr v" and x: "tf v = Inr x"
    and r: "losses_loop tf m ns (od_set name x ret) = Inr r"
    by (auto split: sum.splits)
  show ?case
  proof (cases "n \<in> set (str_entries ns)")
    case True
    with "2.IH"[OF v x r] show ?thesis by simp
  next
    case False
    with "2.prems" have n: "n = name" by simp
    have "map_of r n = map_of (od_set name x ret) n"
      using losses_loop_other[OF r False] .
    then show ?thesis using v x n by (simp add: map_of_od_set)
  qed
qed auto

lemma losses_loop_total:
  "(\<forall>n \<in> set (str_entries ns). \<exists>v x. getattr_self m (''loss_'' @ n) = Inr v \<and> tf v = Inr x)
     \<Longrightarrow> \<exists>r. losses_loop tf m ns acc = Inr r"
  by (induction tf m ns acc rule: losses_loop.induct) auto

lemma losses_total_iff:
  "(\<exists>r. losses_loop tf m ns acc = Inr r) =
     (\<forall>n \<in> set (str_entries ns). \<exists>v x. getattr_self m (''loss_'' @ n) = Inr v \<and> tf v = Inr x)"
  using losses_loop_total[of ns m tf acc] losses_loop_values[of tf m ns acc]
  by blast

text \<open>
  C7. \<open>get_current_visuals\<close> returns an ordered dictionary whose keys are the string
  entries of \<open>visual_names\<close> in the order of their first appearance (the list of string
  entries itself when no name is repeated), each mapped to \<open>getattr(self, name)\<close>; it
  returns exactly when \<open>getattr\<close> finds every such name, and raises otherwise.
  \<open>get_current_losses\<close> does the same for \<open>loss_names\<close> with the value
  \<open>float(getattr(self, 'loss_' + name))\<close>. Entries that are not strings do not
  contribute, and the world after either call is the world before it.
\<close>

theorem get_current_visuals_losses:
  "(fst (get_current_visuals w) = Inr r \<longrightarrow>
      map fst r = first_occurrences (str_entries (visual_names (self w))) \<and>
      (distinct (str_entries (visual_names (self w))) \<longrightarrow>
         map fst r = str_entries (visual_names (self w))) \<and>
      (\<forall>n \<in> set (str_entries (visual_names (self w))).
         \<exists>v. getattr_self (self w) n = Inr v \<and> map_of r n = Some v))
   \<and> ((\<exists>r. fst (get_current_visuals w) = Inr r) =
        (\<forall>n \<in> set (str_entries (visual_names (self w))). \<exists>v. getattr_self (self w) n = Inr v))
   \<and> snd (get_current_visuals w) = w
   \<and> (fst (get_current_losses to_float w) = Inr l \<longrightarrow>
      map fst l = first_occurrences (str_entries (loss_names (self w))) \<and>
      (distinct (str_entries (loss_names (self w))) \<longrightarrow>
         map fst l = str_entries (loss_names (self w))) \<and>
      (\<forall>n \<in> set (str_entries (loss_names (self w))).
         \<exists>v x. getattr_self (self w) (''loss_'' @ n) = Inr v \<and> to_float v = Inr x \<and>
               map_of l n = Some x))
   \<and> ((\<exists>l. fst (get_current_losses to_float w) = Inr l) =
        (\<forall>n \<in> set (str_entries (loss_names (self w))).
           \<exists>v x. getattr_self (self w) (''loss_'' @ n) = Inr v \<and> to_float v = Inr x))
   \<and> snd (get_current_losses to_float w) = w"
proof -
  have v1: "map fst r = first_occurrences (str_entries (visual_names (self w)))"
    if r: "fst (get_current_visuals w) = Inr r"
    using visuals_loop_keys[of "self w" "visual_names (self w)" "[]" r] r
    by (simp add: get_current_visuals_def)
  have v2: "\<exists>v. getattr_self (self w) n = Inr v \<and> map_of r n = Some v"
    if r: "fst (get_current_visuals w) = Inr r"
      and n: "n \<in> set (str_entries (visual_names (self w)))" for n
    using visuals_loop_values[of "self w" "visual_names (self w)" "[]" r n] r n
    by (simp add: get_current_visuals_def)
  have v3: "(\<exists>r. fst (get_current_visuals w) = Inr r) =
        (\<forall>n \<in> set (str_entries (visual_names (self w))). \<exists>v. getattr_self (self w) n = Inr v)"
    using visuals_total_iff[of "self w" "visual_names (self w)" "[]"]
    by (simp add: get_current_visuals_def)
  have v4: "snd (get_current_visuals w) = w"
    by (simp add: get_current_visuals_def)
  have l1: "map fst l = first_occurrences (str_entries (loss_names (self w)))"
    if l: "fst (get_current_losses to_float w) = Inr l"
    using losses_loop_keys[of to_float "self w" "loss_names (self w)" "[]" l] l
    by (simp add: get_current_losses_def)
  have l2: "\<exists>v x. getattr_self (self w) (''loss_'' @ n) = Inr v \<and> to_float v = Inr x \<and>
               map_of l n = Some x"
    if l: "fst (get_current_losses to_float w) = Inr l"
      and n: "n \<in> set (str_entries (loss_names (self w)))" for n
    using losses_loop_values[of to_float "self w" "loss_names (self w)" "[]" l n] l n
    by (simp add: get_current_losses_def)
  have l3: "(\<exists>l. fst (get_current_losses to_float w) = Inr l) =
        (\<forall>n \<in> set (str_entries (loss_names (self w))).
           \<exists>v x. getattr_self (self w) (''loss_'' @ n) = Inr v \<and> to_float v = Inr x)"
    using losses_total_iff[of to_float "self w" "loss_names (self w)" "[]"]
    by (simp add: get_current_losses_def)
  have l4: "snd (get_current_losses to_float w) = w"
    by (simp add: get_current_losses_def)
  show ?thesis
    using v1 v2 l1 l2 first_occurrences_distinct
    unfolding v3 l3 v4 l4
    by (intro conjI impI ballI) (simp_all)
qed

theorem get_current_visuals_losses_witness:
  "fst (get_current_visuals example_world) =
     Inr [(''fake'', AVal (POpaque 1)), (''real'', AVal (POpaque 2)), (''metric'', AVal (PInt 0))]
   \<and> map fst [(''fake'', AVal (POpaque 1) :: nat attr), (''real'', AVal (POpaque 2)),
              (''metric'', AVal (PInt 0))] =
       first_occurrences (str_entries (visual_names (self example_world)))
   \<and> snd (get_current_visuals example_world) = example_world
   \<and> fst (get_current_losses example_float example_world) = Inr [(''G'', 7), (''D'', 2)]
   \<and> map fst [(''G'', 7::int), (''D'', 2)] =
       first_occurrences (str_entries (loss_names (self example_world)))
   \<and> snd (get_current_losses example_float example_world) = example_world"
proof -
  have v: "fst (get_current_visuals example_world) =
     Inr [(''fake'', AVal (POpaque 1)), (''real'', AVal (POpaque 2)), (''metric'', AVal (PInt 0))]"
    by (simp add: get_current_visuals_def example_world_def example_model_def getattr_self_def)
  have l: "fst (get_current_losses example_float example_world) = Inr [(''G'', 7), (''D'', 2)]"
    by (simp add: get_current_losses_def example_world_def example_model_def getattr_self_def
        BaseModel_methods_def)
  from get_current_visuals_losses[of example_world
         "[(''fake'', AVal (POpaque 1)), (''real'', AVal (POpaque 2)), (''metric'', AVal (PInt 0))]"
         example_float "[(''G'', 7), (''D'', 2)]"] v l
  show ?thesis by blast
qed

section \<open>The subclass constructor\<close>

text \<open>
  C8. For every \<open>config\<close>, the constructor of \<open>live_speech_portraits\<close> does what the
  initializer of its superclass does and nothing else: its outcome is that of the
  superclass initializer and does not depend on \<open>config\<close>.
\<close>

theorem live_speech_portraits_init_is_super:
  "live_speech_portraits_init super_init config st = super_init st
   \<and> live_speech_portraits_init super_init config st =
       live_speech_portraits_init super_init config' st"
  by (simp add: live_speech_portraits_init_def)

theorem live_speech_portraits_init_is_super_witness:
  "live_speech_portraits_init Done (PStr ''config'') example_world = Done example_world
   \<and> live_speech_portraits_init Done (PStr ''config'') example_world =
       live_speech_portraits_init Done PNone example_world"
  by (rule live_speech_portraits_init_is_super)

section \<open>Training and evaluation mode\<close>

lemma set_mode_idem: "set_mode b (set_mode b x) = set_mode b x"
  by (induction x) (auto simp: map_prod_def split: prod.splits)

lemma is_module_set_mode: "is_module (set_mode b x) = is_module x"
  by (cases x) auto

lemma training_set_mode: "is_module x \<Longrightarrow> training (set_mode b x) = b"
  by (cases x) auto

lemma net_train_Done:
  "net_train b net w = Done w' \<Longrightarrow>
     \<exists>a. net = AVal (PRef a) \<and> is_module (heap w a) \<and> w' = w\<lparr>heap := (heap w)(a := set_mode b (heap w a))\<rparr>"
  by (erule net_train.elims) (auto split: if_splits)

lemma mode_loop:
  assumes body: "\<And>n w. body n w =
     (case getattr_self (self w) n of Inl e \<Rightarrow> Raised e w | Inr net \<Rightarrow> net_train b net w)"
  shows "for_names body ns w = Done w' \<Longrightarrow>
     self w' = self w \<and> files w' = files w \<and> log w' = log w \<and>
     cudnn_enabled w' = cudnn_enabled w \<and> cudnn_benchmark w' = cudnn_benchmark w \<and>
     (\<forall>a. heap w' a =
        (if \<exists>n \<in> set (str_entries ns). getattr_self (self w) n = Inr (AVal (PRef a))
         then set_mode b (heap w a) else heap w a)) \<and>
     (\<forall>n \<in> set (str_entries ns). \<exists>a. getattr_self (self w) n = Inr (AVal (PRef a)) \<and> is_module (heap w a))"
proof (induction ns arbitrary: w)
  case Nil
  then show ?case by simp
next
  case (Cons x ns)
  show ?case
  proof (cases "\<exists>n. x = PStr n")
    case False
    then have "for_names body (x # ns) w = for_names body ns w" "str_entries (x # ns) = str_entries ns"
      by (cases x; simp)+
    with Cons show ?thesis by simp
  next
    case True
    then obtain n where x: "x = PStr n" by blast
    from Cons.prems x obtain w1 where w1: "body n w = Done w1"
      and rest: "for_names body ns w1 = Done w'"
      by (auto split: outcome.splits)
    from w1 obtain net where net: "getattr_self (self w) n = Inr net"
      and t: "net_train b net w = Done w1"
      by (auto simp: body split: sum.splits)
    from net_train_Done[OF t] obtain a where a: "net = AVal (PRef a)" "is_module (heap w a)"
      and w1_eq: "w1 = w\<lparr>heap := (heap w)(a := set_mode b (heap w a))\<rparr>" by blast
    from net a have at: "getattr_self (self w) n = Inr (AVal (PRef a))"
      by simp
    note IH = Cons.IH[OF rest]
    have w1_fields: "self w1 = self w" "files w1 = files w" "log w1 = log w"
      "cudnn_enabled w1 = cudnn_enabled w" "cudnn_benchmark w1 = cudnn_benchmark w"
      "heap w1 = (heap w)(a := set_mode b (heap w a))"
      by (simp_all add: w1_eq)
    have frame: "self w' = self w \<and> files w' = files w \<and> log w' = log w \<and>
        cudnn_enabled w' = cudnn_enabled w \<and> cudnn_benchmark w' = cudnn_benchmark w"
      using IH w1_fields by simp
    have hp: "\<forall>c. heap w' c =
        (if \<exists>n \<in> set (str_entries (x # ns)). getattr_self (self w) n = Inr (AVal (PRef c))
         then set_mode b (heap w c) else heap w c)"
    proof
      fix c
      from IH have h: "heap w' c =
        (if \<exists>n \<in> set (str_entries ns). getattr_self (self w) n = Inr (AVal (PRef c))
         then set_mode b (heap w1 c) else heap w1 c)"
        by (simp add: w1_fields)
      show "heap w' c =
        (if \<exists>n \<in> set (str_entries (x # ns)). getattr_self (self w) n = Inr (AVal (PRef c))
         then set_mode b (heap w c) else heap w c)"
      proof (cases "c = a")
        case True
        then show ?thesis using h at by (auto simp: x w1_fields set_mode_idem)
      next
        case False
        then show ?thesis using h at by (auto simp: x w1_fields)
      qed
    qed
    have res: "\<forall>m \<in> set (str_entries (x # ns)).
        \<exists>c. getattr_self (self w) m = Inr (AVal (PRef c)) \<and> is_module (heap w c)"
    proof
      fix m assume m: "m \<in> set (str_entries (x # ns))"
      show "\<exists>c. getattr_self (self w) m = Inr (AVal (PRef c)) \<and> is_module (heap w c)"
      proof (cases "m = n")
        case True
        then show ?thesis using at a(2) by blast
      next
        case False
        with m x have "m \<in> set (str_entries ns)" by simp
        with IH obtain c where c: "getattr_self (self w1) m = Inr (AVal (PRef c))" "is_module (heap w1 c)"
          by blast
        then have "is_module (heap w c)"
          by (cases "c = a") (simp_all add: w1_fields is_module_set_mode a(2))
        with c show ?thesis by (auto simp: w1_fields)
      qed
    qed
    from frame hp res show ?thesis by blast
  qed
qed

lemma mode_loop_total:
  assumes body: "\<And>n w. body n w =
     (case getattr_self (self w) n of Inl e \<Rightarrow> Raised e w | Inr net \<Rightarrow> net_train b net w)"
  shows "(\<forall>n \<in> set (str_entries ns). \<exists>a. getattr_self (self w) n = Inr (AVal (PRef a)) \<and> is_module (heap w a))
     \<Longrightarrow> \<exists>w'. for_names body ns w = Done w'"
proof (induction ns arbitrary: w)
  case Nil
  then show ?case by simp
next
  case (Cons x ns)
  show ?case
  proof (cases "\<exists>n. x = PStr n")
    case False
    then have "for_names body (x # ns) w = for_names body ns w" "str_entries (x # ns) = str_entries ns"
      by (cases x; simp)+
    with Cons show ?thesis by simp
  next
    case True
    then obtain n where x: "x = PStr n" by blast
    from Cons.prems x obtain a where a: "getattr_self (self w) n = Inr (AVal (PRef a))" "is_module (heap w a)"
      by auto
    let ?w1 = "w\<lparr>heap := (heap w)(a := set_mode b (heap w a))\<rparr>"
    have w1: "body n w = Done ?w1" using a by (simp add: body)
    have "\<forall>n \<in> set (str_entries ns). \<exists>a. getattr_self (self ?w1) n = Inr (AVal (PRef a)) \<and> is_module (heap ?w1 a)"
      using Cons.prems x by (auto simp: is_module_set_mode)
    from Cons.IH[OF this] show ?thesis using w1 x by simp
  qed
qed

lemma mode_loop_frame:
  assumes body: "\<And>n w. body n w =
     (case getattr_self (self w) n of Inl e \<Rightarrow> Raised e w | Inr net \<Rightarrow> net_train b net w)"
  shows "self (world_of (for_names body ns w)) = self w \<and>
         files (world_of (for_names body ns w)) = files w \<and>
         log (world_of (for_names body ns w)) = log w"
proof (induction ns arbitrary: w)
  case Nil
  then show ?case by simp
next
  case (Cons x ns)
  show ?case
  proof (cases x)
    case (PStr n)
    show ?thesis
    proof (cases "body n w")
      case (Done w1)
      then have "self w1 = self w \<and> files w1 = files w \<and> log w1 = log w"
        by (auto simp: body split: sum.splits dest!: net_train_Done)
      with Cons.IH[of w1] Done PStr show ?thesis by simp
    next
      case (Raised e w1)
      then have "w1 = w"
        by (auto simp: body split: sum.splits if_splits elim: net_train.elims)
      with Raised PStr show ?thesis by simp
    qed
  qed (use Cons.IH in simp_all)
qed

text \<open>
  C5. \<open>train\<close> puts every network named by a string entry of \<open>model_names\<close> in training
  mode and \<open>eval\<close> puts every such network in evaluation mode; entries that are not
  strings do not count. Neither method changes \<open>self\<close>, the files or the log, and the
  only objects of the store that change are the named networks. Both methods succeed
  when every string entry names an attribute that refers to a module.
\<close>

theorem train_eval_modes:
  "self (world_of (train w)) = self w \<and> files (world_of (train w)) = files w \<and>
   log (world_of (train w)) = log w \<and>
   self (world_of (eval_model w)) = self w \<and> files (world_of (eval_model w)) = files w \<and>
   log (world_of (eval_model w)) = log w
   \<and> (train w = Done w' \<longrightarrow>
        (\<forall>n \<in> set (str_entries (model_names (self w))).
           \<exists>a. getattr_self (self w) n = Inr (AVal (PRef a)) \<and> is_module (heap w' a) \<and>
               training (heap w' a) \<and> heap w' a = set_mode True (heap w a)) \<and>
        (\<forall>a. (\<forall>n \<in> set (str_entries (model_names (self w))).
                 getattr_self (self w) n \<noteq> Inr (AVal (PRef a))) \<longrightarrow> heap w' a = heap w a))
   \<and> (eval_model w = Done w'' \<longrightarrow>
        (\<forall>n \<in> set (str_entries (model_names (self w))).
           \<exists>a. getattr_self (self w) n = Inr (AVal (PRef a)) \<and> is_module (heap w'' a) \<and>
               \<not> training (heap w'' a) \<and> heap w'' a = set_mode False (heap w a)) \<and>
        (\<forall>a. (\<forall>n \<in> set (str_entries (model_names (self w))).
                 getattr_self (self w) n \<noteq> Inr (AVal (PRef a))) \<longrightarrow> heap w'' a = heap w a))
   \<and> ((\<forall>n \<in> set (str_entries (model_names (self w))).
          \<exists>a. getattr_self (self w) n = Inr (AVal (PRef a)) \<and> is_module (heap w a))
        \<longrightarrow> (\<exists>v. train w = Done v) \<and> (\<exists>v. eval_model w = Done v))"
proof -
  have tb: "\<And>n w. train_body n (w :: 'a world) =
     (case getattr_self (self w) n of Inl e \<Rightarrow> Raised e w | Inr net \<Rightarrow> net_train True net w)"
    by (simp add: train_body_def)
  have eb: "\<And>n w. eval_body n (w :: 'a world) =
     (case getattr_self (self w) n of Inl e \<Rightarrow> Raised e w | Inr net \<Rightarrow> net_train False net w)"
    by (simp add: eval_body_def)
  have frame: "self (world_of (train w)) = self w \<and> files (world_of (train w)) = files w \<and>
     log (world_of (train w)) = log w \<and>
     self (world_of (eval_model w)) = self w \<and> files (world_of (eval_model w)) = files w \<and>
     log (world_of (eval_model w)) = log w"
    using mode_loop_frame[of train_body True "model_names (self w)" w, OF tb]
      mode_loop_frame[of eval_body False "model_names (self w)" w, OF eb]
    by (simp add: train_def eval_model_def)
  have modes: "\<And>body b v. (\<And>n w. body n (w :: 'a world) =
       (case getattr_self (self w) n of Inl e \<Rightarrow> Raised e w | Inr net \<Rightarrow> net_train b net w))
     \<Longrightarrow> for_names body (model_names (self w)) w = Done v \<Longrightarrow>
       (\<forall>n \<in> set (str_entries (model_names (self w))).
           \<exists>a. getattr_self (self w) n = Inr (AVal (PRef a)) \<and> is_module (heap v a) \<and>
               training (heap v a) = b \<and> heap v a = set_mode b (heap w a)) \<and>
        (\<forall>a. (\<forall>n \<in> set (str_entries (model_names (self w))).
                 getattr_self (self w) n \<noteq> Inr (AVal (PRef a))) \<longrightarrow> heap v a = heap w a)"
  proof -
    fix body b and v :: "'a world"
    assume body: "\<And>n w. body n (w :: 'a world) =
       (case getattr_self (self w) n of Inl e \<Rightarrow> Raised e w | Inr net \<Rightarrow> net_train b net w)"
      and run: "for_names body (model_names (self w)) w = Done v"
    note L = mode_loop[of body b "model_names (self w)" w v, OF body run]
    show "(\<forall>n \<in> set (str_entries (model_names (self w))).
           \<exists>a. getattr_self (self w) n = Inr (AVal (PRef a)) \<and> is_module (heap v a) \<and>
               training (heap v a) = b \<and> heap v a = set_mode b (heap w a)) \<and>
        (\<forall>a. (\<forall>n \<in> set (str_entries (model_names (self w))).
                 getattr_self (self w) n \<noteq> Inr (AVal (PRef a))) \<longrightarrow> heap v a = heap w a)"
    proof (intro conjI ballI allI impI)
      fix n assume n: "n \<in> set (str_entries (model_names (self w)))"
      with L obtain a where a: "getattr_self (self w) n = Inr (AVal (PRef a))" "is_module (heap w a)" by blast
      with L n have h: "heap v a = set_mode b (heap w a)" by auto
      with a show "\<exists>a. getattr_self (self w) n = Inr (AVal (PRef a)) \<and> is_module (heap v a) \<and>
               training (heap v a) = b \<and> heap v a = set_mode b (heap w a)"
        by (auto simp: is_module_set_mode training_set_mode)
    next
      fix a assume "\<forall>n \<in> set (str_entries (model_names (self w))). getattr_self (self w) n \<noteq> Inr (AVal (PRef a))"
      with L show "heap v a = heap w a" by auto
    qed
  qed
  have total: "(\<forall>n \<in> set (str_entries (model_names (self w))).
          \<exists>a. getattr_self (self w) n = Inr (AVal (PRef a)) \<and> is_module (heap w a))
        \<longrightarrow> (\<exists>v. train w = Done v) \<and> (\<exists>v. eval_model w = Done v)"
    using mode_loop_total[of train_body True "model_names (self w)" w, OF tb]
      mode_loop_total[of eval_body False "model_names (self w)" w, OF eb]
    by (simp add: train_def eval_model_def)
  from frame modes[of train_body True w', OF tb] modes[of eval_body False w'', OF eb] total
  show ?thesis unfolding train_def eval_model_def by simp
qed

theorem train_eval_modes_witness:
  "train example_world =
     Done (example_world\<lparr>heap := example_heap(0 := set_mode True example_net)\<rparr>)
   \<and> eval_model example_world =
     Done (example_world\<lparr>heap := example_heap(0 := set_mode False example_net)\<rparr>)
   \<and> training (heap (world_of (train example_world)) 0)
   \<and> \<not> training (heap (world_of (eval_model example_world)) 0)
   \<and> heap (world_of (train example_world)) 1 = heap example_world 1
   \<and> self (world_of (train example_world)) = self example_world"
proof -
  let ?T = "example_world\<lparr>heap := example_heap(0 := set_mode True example_net)\<rparr>"
  let ?E = "example_world\<lparr>heap := example_heap(0 := set_mode False example_net)\<rparr>"
  have t: "train example_world = Done ?T"
    by (simp add: train_def train_body_def example_world_def example_model_def getattr_self_def
        example_heap_def example_net_def)
  have e: "eval_model example_world = Done ?E"
    by (simp add: eval_model_def eval_body_def example_world_def example_model_def getattr_self_def
        example_heap_def example_net_def)
  have names: "str_entries (model_names (self example_world)) = [''net_G'']"
    by (simp add: example_world_def example_model_def)
  have at: "getattr_self (self example_world) ''net_G'' = Inr (AVal (PRef 0))"
    by (simp add: example_world_def example_model_def getattr_self_def)
  from train_eval_modes[of example_world ?T ?E] t e
  have "training (heap ?T 0) \<and> \<not> training (heap ?E 0) \<and> heap ?T 1 = heap example_world 1
      \<and> self (world_of (train example_world)) = self example_world"
    unfolding names using at by auto
  with t e show ?thesis by simp
qed

section \<open>Stepping the schedulers\<close>

lemma step_loop_Done:
  "step_loop step i rest w = Done w' \<Longrightarrow> schedulers (self w) = Some (pre @ rest) \<Longrightarrow>
   length pre = i \<Longrightarrow>
     log w' = log w @ map (\<lambda>j. SchedulerStep j (step_arg w)) [i..<i + length rest] \<and>
     optimizers (self w') = optimizers (self w) \<and> files w' = files w \<and>
     (\<exists>post. schedulers (self w') = Some (pre @ post) \<and>
        list_all2 (\<lambda>s s'. \<exists>h h'. step s (step_arg w) h = Inr (s', h')) rest post)"
proof (induction rest arbitrary: i w pre)
  case Nil
  then show ?case by simp
next
  case (Cons s rest)
  from Cons.prems(1) obtain s' h where st: "step s (step_arg w) (heap w) = Inr (s', h)"
    and run: "step_loop step (Suc i) rest
       (w\<lparr>self := (self w)\<lparr>schedulers := map_option (\<lambda>ss. ss[i := s']) (schedulers (self w))\<rparr>,
          heap := h, log := log w @ [SchedulerStep i (step_arg w)]\<rparr>) = Done w'"
    by (auto simp: step_arg_def Let_def split: sum.splits)
  let ?w1 = "w\<lparr>self := (self w)\<lparr>schedulers := map_option (\<lambda>ss. ss[i := s']) (schedulers (self w))\<rparr>,
          heap := h, log := log w @ [SchedulerStep i (step_arg w)]\<rparr>"
  have sch: "schedulers (self ?w1) = Some ((pre @ [s']) @ rest)"
    using Cons.prems(2,3) by (simp add: list_update_append)
  have arg: "step_arg ?w1 = step_arg w" by (simp add: step_arg_def)
  have len: "length (pre @ [s']) = Suc i" using Cons.prems(3) by simp
  note IH = Cons.IH[OF run sch len, unfolded arg]
  from IH obtain post where post: "schedulers (self w') = Some ((pre @ [s']) @ post)"
    "list_all2 (\<lambda>s s'. \<exists>h h'. step s (step_arg w) h = Inr (s', h')) rest post" by blast
  have u: "[i..<i + length (s # rest)] = i # [Suc i..<Suc i + length rest]"
  proof -
    have "i < i + length (s # rest)" by simp
    then have "[i..<i + length (s # rest)] = i # [Suc i..<i + length (s # rest)]"
      by (rule upt_conv_Cons)
    moreover have "i + length (s # rest) = Suc i + length rest" by simp
    ultimately show ?thesis by (simp only:)
  qed
  have l1: "log ?w1 = log w @ [SchedulerStep i (step_arg w)]" by simp
  have "log w' = log ?w1 @ map (\<lambda>j. SchedulerStep j (step_arg w)) [Suc i..<Suc i + length rest]"
    using IH by blast
  then have lg: "log w' = log w @ map (\<lambda>j. SchedulerStep j (step_arg w)) [i..<i + length (s # rest)]"
    unfolding l1 u by (simp only: list.map append_assoc append_Cons append_Nil)
  have fr: "optimizers (self w') = optimizers (self w)" "files w' = files w"
    using IH by simp_all
  have "list_all2 (\<lambda>s s'. \<exists>h h'. step s (step_arg w) h = Inr (s', h')) (s # rest) (s' # post)"
    using st post(2) by auto
  moreover have "schedulers (self w') = Some (pre @ s' # post)" using post(1) by simp
  ultimately show ?case using lg fr by blast
qed

lemma step_loop_total:
  "(\<forall>s a h. \<exists>r. step s a h = Inr r) \<Longrightarrow> \<exists>w'. step_loop step i rest w = Done w'"
proof (induction rest arbitrary: i w)
  case Nil
  then show ?case by simp
next
  case (Cons s rest)
  from Cons.prems obtain s' h where "step s (step_arg w) (heap w) = Inr (s', h)"
    by (metis surj_pair)
  then show ?case using Cons.IH[OF Cons.prems]
    by (simp add: step_arg_def Let_def)
qed

lemma read_lr_Nil: "read_lr [] h = Inl IndexError"
  by (simp add: read_lr_def)


lemma step_loop_in_order:
  "step_loop step i rest w = Done w' \<Longrightarrow>
     \<exists>ss'. steps_in_order step (step_arg w) rest (heap w) = Inr (ss', heap w')"
proof (induction rest arbitrary: i w)
  case Nil
  then show ?case by simp
next
  case (Cons s rest)
  from Cons.prems obtain s' h where st: "step s (step_arg w) (heap w) = Inr (s', h)"
    and run: "step_loop step (Suc i) rest
       (w\<lparr>self := (self w)\<lparr>schedulers := map_option (\<lambda>ss. ss[i := s']) (schedulers (self w))\<rparr>,
          heap := h, log := log w @ [SchedulerStep i (step_arg w)]\<rparr>) = Done w'"
    by (auto simp: step_arg_def Let_def split: sum.splits)
  let ?w1 = "w\<lparr>self := (self w)\<lparr>schedulers := map_option (\<lambda>ss. ss[i := s']) (schedulers (self w))\<rparr>,
          heap := h, log := log w @ [SchedulerStep i (step_arg w)]\<rparr>"
  have arg: "step_arg ?w1 = step_arg w" by (simp add: step_arg_def)
  from Cons.IH[OF run] obtain ss' where
    "steps_in_order step (step_arg w) rest h = Inr (ss', heap w')"
    unfolding arg by auto
  with st show ?case by simp
qed

lemma step_loop_same_schedulers:
  "step_loop step i rest w = Done w' \<Longrightarrow> schedulers (self w) = Some (pre @ rest) \<Longrightarrow>
   length pre = i \<Longrightarrow> steps_in_order step (step_arg w) rest (heap w) = Inr (ss', h') \<Longrightarrow>
     schedulers (self w') = Some (pre @ ss')"
proof (induction rest arbitrary: i w pre ss')
  case Nil
  then show ?case by simp
next
  case (Cons s rest)
  from Cons.prems(1) obtain s' h where st: "step s (step_arg w) (heap w) = Inr (s', h)"
    and run: "step_loop step (Suc i) rest
       (w\<lparr>self := (self w)\<lparr>schedulers := map_option (\<lambda>ss. ss[i := s']) (schedulers (self w))\<rparr>,
          heap := h, log := log w @ [SchedulerStep i (step_arg w)]\<rparr>) = Done w'"
    by (auto simp: step_arg_def Let_def split: sum.splits)
  let ?w1 = "w\<lparr>self := (self w)\<lparr>schedulers := map_option (\<lambda>ss. ss[i := s']) (schedulers (self w))\<rparr>,
          heap := h, log := log w @ [SchedulerStep i (step_arg w)]\<rparr>"
  have sch: "schedulers (self ?w1) = Some ((pre @ [s']) @ rest)"
    using Cons.prems(2,3) by (simp add: list_update_append)
  have arg: "step_arg ?w1 = step_arg w" by (simp add: step_arg_def)
  have len: "length (pre @ [s']) = Suc i" using Cons.prems(3) by simp
  from Cons.prems(4) st obtain rest' where
    r: "steps_in_order step (step_arg w) rest h = Inr (rest', h')" and ss': "ss' = s' # rest'"
    by (auto split: sum.splits)
  have "steps_in_order step (step_arg ?w1) rest (heap ?w1) = Inr (rest', h')"
    using r unfolding arg by simp
  from Cons.IH[OF run sch len this] show ?case by (simp add: ss')
qed

text \<open>
  C6. \<open>update_learning_rate\<close> steps every scheduler of \<open>self.schedulers\<close> once and in
  order, with \<open>self.metric\<close> as argument when \<open>self.opt.lr_policy\<close> is \<open>'plateau'\<close> and
  without argument otherwise; it then reads the entry \<open>'lr'\<close> of the first parameter
  group of the object that the first entry of \<open>self.optimizers\<close> refers to, as the steps
  left it, and prints it. It completes only when \<open>self.optimizers\<close> is not empty: with an
  empty list it raises, and when no step raises the exception is the \<open>IndexError\<close> of the
  final read, after all the steps.
\<close>

theorem update_learning_rate_steps:
  "(update_learning_rate step fmt w = Done w' \<longrightarrow>
      optimizers (self w) \<noteq> [] \<and>
      (\<exists>ss ss' a rest g grest lr number.
         schedulers (self w) = Some ss \<and> schedulers (self w') = Some ss' \<and>
         steps_in_order step (step_arg w) ss (heap w) = Inr (ss', heap w') \<and>
         list_all2 (\<lambda>s s'. \<exists>h h'. step s (step_arg w) h = Inr (s', h')) ss ss' \<and>
         optimizers (self w) = a # rest \<and> heap w' a = OOptimizer (g # grest) \<and>
         map_of g ''lr'' = Some lr \<and> fmt lr = Inr number \<and>
         log w' = log w @ map (\<lambda>i. SchedulerStep i (step_arg w)) [0..<length ss] @
                    [Print (MsgLearningRate (''learning rate = '' @ number))]))
   \<and> (optimizers (self w) = [] \<longrightarrow> (\<exists>e v. update_learning_rate step fmt w = Raised e v))
   \<and> (optimizers (self w) = [] \<and> schedulers (self w) = Some ss0 \<and>
        (\<forall>s a h. \<exists>r. step s a h = Inr r) \<longrightarrow>
        (\<exists>v. update_learning_rate step fmt w = Raised IndexError v \<and>
             log v = log w @ map (\<lambda>i. SchedulerStep i (step_arg w)) [0..<length ss0]))"
proof (intro conjI impI)
  assume d: "update_learning_rate step fmt w = Done w'"
  then obtain ss w1 lr number where ss: "schedulers (self w) = Some ss"
    and w1: "step_loop step 0 ss w = Done w1"
    and lr: "read_lr (optimizers (self w1)) (heap w1) = Inr lr"
    and nb: "fmt lr = Inr number"
    and w': "w' = w1\<lparr>log := log w1 @ [Print (MsgLearningRate (''learning rate = '' @ number))]\<rparr>"
    by (auto simp: update_learning_rate_def split: option.splits outcome.splits sum.splits)
  from step_loop_Done[OF w1, of "[]"] ss
  have L: "log w1 = log w @ map (\<lambda>j. SchedulerStep j (step_arg w)) [0..<length ss]"
    "optimizers (self w1) = optimizers (self w)"
    "\<exists>post. schedulers (self w1) = Some post \<and>
        list_all2 (\<lambda>s s'. \<exists>h h'. step s (step_arg w) h = Inr (s', h')) ss post"
    by simp_all
  from lr L(2) show ne: "optimizers (self w) \<noteq> []"
    by (auto simp: read_lr_Nil)
  from L(3) obtain post where post: "schedulers (self w1) = Some post"
    "list_all2 (\<lambda>s s'. \<exists>h h'. step s (step_arg w) h = Inr (s', h')) ss post" by blast
  from step_loop_in_order[OF w1] obtain ss' where
    io: "steps_in_order step (step_arg w) ss (heap w) = Inr (ss', heap w1)" by blast
  from step_loop_same_schedulers[OF w1, of "[]", OF _ _ io] ss
  have "schedulers (self w1) = Some ss'" by simp
  with post have eq: "post = ss'" by simp
  from ne obtain a rest where os: "optimizers (self w) = a # rest" by (cases "optimizers (self w)") auto
  from lr L(2) os obtain g grest where hp: "heap w1 a = OOptimizer (g # grest)"
    and g: "map_of g ''lr'' = Some lr"
    by (auto simp: read_lr_def split: pyobj.splits list.splits option.splits)
  have "schedulers (self w') = Some ss'" "heap w' = heap w1"
    "log w' = log w @ map (\<lambda>i. SchedulerStep i (step_arg w)) [0..<length ss] @
                    [Print (MsgLearningRate (''learning rate = '' @ number))]"
    using post(1) eq L(1) by (simp_all add: w')
  with ss post(2) eq io os hp g nb
  show "\<exists>ss ss' a rest g grest lr number.
         schedulers (self w) = Some ss \<and> schedulers (self w') = Some ss' \<and>
         steps_in_order step (step_arg w) ss (heap w) = Inr (ss', heap w') \<and>
         list_all2 (\<lambda>s s'. \<exists>h h'. step s (step_arg w) h = Inr (s', h')) ss ss' \<and>
         optimizers (self w) = a # rest \<and> heap w' a = OOptimizer (g # grest) \<and>
         map_of g ''lr'' = Some lr \<and> fmt lr = Inr number \<and>
         log w' = log w @ map (\<lambda>i. SchedulerStep i (step_arg w)) [0..<length ss] @
                    [Print (MsgLearningRate (''learning rate = '' @ number))]"
    by auto
next
  assume e: "optimizers (self w) = []"
  show "\<exists>e v. update_learning_rate step fmt w = Raised e v"
  proof (cases "update_learning_rate step fmt w")
    case (Done v)
    then obtain ss w1 lr where ss: "schedulers (self w) = Some ss"
      and w1: "step_loop step 0 ss w = Done w1"
      and lr: "read_lr (optimizers (self w1)) (heap w1) = Inr lr"
      by (auto simp: update_learning_rate_def split: option.splits outcome.splits sum.splits)
    from step_loop_Done[OF w1, of "[]"] ss have "optimizers (self w1) = optimizers (self w)"
      by simp
    with lr e show ?thesis by (simp add: read_lr_Nil)
  qed blast
next
  assume a: "optimizers (self w) = [] \<and> schedulers (self w) = Some ss0 \<and>
        (\<forall>s a h. \<exists>r. step s a h = Inr r)"
  then obtain w1 where w1: "step_loop step 0 ss0 w = Done w1"
    using step_loop_total[of step 0 ss0 w] by blast
  from step_loop_Done[OF w1, of "[]"] a
  have L: "log w1 = log w @ map (\<lambda>j. SchedulerStep j (step_arg w)) [0..<length ss0]"
    "optimizers (self w1) = []"
    by simp_all
  have "update_learning_rate step fmt w = Raised IndexError w1"
    using a w1 L(2) by (simp add: update_learning_rate_def read_lr_Nil)
  with L(1) show "\<exists>v. update_learning_rate step fmt w = Raised IndexError v \<and>
             log v = log w @ map (\<lambda>i. SchedulerStep i (step_arg w)) [0..<length ss0]"
    by blast
qed

theorem update_learning_rate_steps_witness:
  "log (world_of (update_learning_rate example_step example_fmt example_world)) =
     [SchedulerStep 0 (Some (PInt 0)), Print (MsgLearningRate ''learning rate = 0.0004000'')]
   \<and> raised (update_learning_rate example_step example_fmt example_world) = None
   \<and> optimizers (self example_world) \<noteq> []
   \<and> (\<exists>v. update_learning_rate example_step example_fmt
             (example_world\<lparr>self := example_model\<lparr>optimizers := []\<rparr>\<rparr>) = Raised IndexError v)"
proof -
  let ?X = "example_world\<lparr>self := example_model\<lparr>optimizers := []\<rparr>\<rparr>"
  obtain v where d: "update_learning_rate example_step example_fmt example_world = Done v"
    and lg: "log v = [SchedulerStep 0 (Some (PInt 0)),
                      Print (MsgLearningRate ''learning rate = 0.0004000'')]"
    by (simp add: update_learning_rate_def example_world_def example_model_def example_step_def
        example_options_def example_heap_def read_lr_def)
  from update_learning_rate_steps[of example_step example_fmt example_world v] d
  have ne: "optimizers (self example_world) \<noteq> []" by blast
  have x: "optimizers (self ?X) = [] \<and> schedulers (self ?X) = Some [1] \<and>
        (\<forall>s a h. \<exists>r. example_step s a h = Inr r)"
    by (simp add: example_model_def example_step_def)
  from update_learning_rate_steps[of example_step example_fmt ?X _ "[1]"] x
  have "\<exists>v. update_learning_rate example_step example_fmt ?X = Raised IndexError v" by blast
  with d lg ne show ?thesis by simp
qed

section \<open>Loading checkpoints\<close>

lemma for_names_invariant:
  assumes step: "\<And>n w. n \<in> set (str_entries ns) \<Longrightarrow> I w \<Longrightarrow> I (world_of (body n w))"
    and init: "I w"
  shows "I (world_of (for_names body ns w))"
  using assms
proof (induction ns arbitrary: w)
  case Nil
  then show ?case by simp
next
  case (Cons x ns)
  show ?case
  proof (cases x)
    case (PStr n)
    have 1: "I (world_of (body n w))" using Cons.prems PStr by simp
    show ?thesis
    proof (cases "body n w")
      case (Done w1)
      with 1 have "I w1" by simp
      then have "I (world_of (for_names body ns w1))"
        using Cons.IH[of w1] Cons.prems(1) PStr by simp
      with Done PStr show ?thesis by simp
    next
      case (Raised e w1)
      with 1 PStr show ?thesis by simp
    qed
  qed (use Cons in simp_all)
qed

lemma for_names_raised:
  assumes step: "\<And>n w. n \<in> set (str_entries ns) \<Longrightarrow> I w \<Longrightarrow> I (world_of (body n w))"
    and init: "I w"
    and r: "raised (for_names body ns w) = Some e"
  shows "\<exists>n \<in> set (str_entries ns). \<exists>w1. I w1 \<and> raised (body n w1) = Some e"
  using assms
proof (induction ns arbitrary: w)
  case Nil
  then show ?case by simp
next
  case (Cons x ns)
  show ?case
  proof (cases x)
    case (PStr n)
    have 1: "I (world_of (body n w))" using Cons.prems PStr by simp
    show ?thesis
    proof (cases "body n w")
      case (Done w1)
      with 1 have "I w1" by simp
      moreover have "raised (for_names body ns w1) = Some e" using Cons.prems(3) Done PStr by simp
      ultimately have "\<exists>n \<in> set (str_entries ns). \<exists>w1. I w1 \<and> raised (body n w1) = Some e"
        using Cons.IH[of w1] Cons.prems(1) PStr by simp
      with PStr show ?thesis by auto
    next
      case (Raised e' w1)
      with Cons.prems(3) PStr have "raised (body n w) = Some e" by simp
      with Cons.prems(2) PStr show ?thesis by auto
    qed
  qed (use Cons in simp_all)
qed

lemma getattr_self_error: "getattr_self m n = Inl e \<Longrightarrow> e = AttributeError"
  by (auto simp: getattr_self_def split: if_splits option.splits)

lemma strip_loop_error: "strip_loop ks d = Inl e \<Longrightarrow> e = KeyError"
  by (induction ks d rule: strip_loop.induct)
     (auto simp: od_pop_def split: option.splits sum.splits)

lemma prepare_state_dict_error: "prepare_state_dict dev sd = Inl e \<Longrightarrow> e = KeyError"
  by (auto simp: prepare_state_dict_def split: if_splits sum.splits dest: strip_loop_error)

lemma load_one_missing:
  "load_path (save_dir (self w)) epoch n = Inr p \<Longrightarrow> getattr_self (self w) n = Inr net \<Longrightarrow>
   files w p = None \<Longrightarrow>
     load_one lsd epoch n w =
       (if isTrain (self w)
        then Done (w\<lparr>log := log w @ [PathExists p, Print (MsgNoWeights p)]\<rparr>)
        else Raised ValueError (w\<lparr>log := log w @ [PathExists p, Print (MsgNoWeights p)]\<rparr>))"
  by (simp add: load_one_def)

lemma load_one_exists:
  "load_path (save_dir (self w)) epoch n = Inr p \<Longrightarrow> getattr_self (self w) n = Inr net \<Longrightarrow>
   files w p = Some loaded \<Longrightarrow> prepare_state_dict (device (self w)) loaded = Inr sd \<Longrightarrow>
     load_one lsd epoch n w =
       net_load_state_dict lsd net sd
         (w\<lparr>log := log w @ [PathExists p, TorchLoad p (device (self w)), Print (MsgLoading p)]\<rparr>)"
  by (simp add: load_one_def)

lemma nlsd_cases:
  "(\<exists>a. net = AVal (PRef a)) \<or> net_load_state_dict lsd net sd v = Raised AttributeError v"
  by (cases "(lsd, net, sd, v)" rule: net_load_state_dict.cases) auto

lemma nlsd_self: "self (world_of (net_load_state_dict lsd net sd v)) = self v"
  using nlsd_cases[of net lsd sd v] by (auto split: sum.splits)

lemma nlsd_files: "files (world_of (net_load_state_dict lsd net sd v)) = files v"
  using nlsd_cases[of net lsd sd v] by (auto split: sum.splits)

lemma nlsd_heap:
  "heap (world_of (net_load_state_dict lsd net sd v)) a \<noteq> heap v a \<Longrightarrow> net = AVal (PRef a)"
  using nlsd_cases[of net lsd sd v] by (auto split: sum.splits if_splits)

lemma load_one_frame:
  "self (world_of (load_one lsd epoch n w)) = self w \<and>
   files (world_of (load_one lsd epoch n w)) = files w"
  by (auto simp: load_one_def nlsd_self nlsd_files split: sum.splits option.splits)

lemma load_one_heap:
  assumes h: "heap (world_of (load_one lsd epoch n w)) a \<noteq> heap w a"
  shows "getattr_self (self w) n = Inr (AVal (PRef a)) \<and>
     (\<exists>p. load_path (save_dir (self w)) epoch n = Inr p \<and> files w p \<noteq> None)"
proof (cases "load_path (save_dir (self w)) epoch n")
  case (Inl e)
  with h show ?thesis by (simp add: load_one_def)
next
  case (Inr p)
  show ?thesis
  proof (cases "getattr_self (self w) n")
    case (Inl e)
    with Inr h show ?thesis by (simp add: load_one_def)
  next
    case net: (Inr net)
    show ?thesis
    proof (cases "files w p")
      case None
      with Inr net h show ?thesis by (auto simp: load_one_missing split: if_splits)
    next
      case (Some loaded)
      show ?thesis
      proof (cases "prepare_state_dict (device (self w)) loaded")
        case (Inl e)
        with Inr net Some h show ?thesis by (simp add: load_one_def)
      next
        case sd: (Inr sd)
        let ?v = "w\<lparr>log := log w @ [PathExists p, TorchLoad p (device (self w)),
                                    Print (MsgLoading p)]\<rparr>"
        from h have "heap (world_of (net_load_state_dict lsd net sd ?v)) a \<noteq> heap ?v a"
          by (simp add: load_one_exists[OF Inr net Some sd])
        then have "net = AVal (PRef a)" by (rule nlsd_heap)
        with net have "getattr_self (self w) n = Inr (AVal (PRef a))" by simp
        with Inr Some show ?thesis by simp
      qed
    qed
  qed
qed

lemma load_one_ValueError:
  assumes "raised (load_one lsd epoch n w) = Some ValueError"
    and "\<forall>sd ob. lsd sd ob \<noteq> Inl ValueError"
  shows "isTrain (self w) = False \<and>
     (\<exists>p. load_path (save_dir (self w)) epoch n = Inr p \<and> files w p = None)"
proof (cases "load_path (save_dir (self w)) epoch n")
  case (Inl e)
  then have "e = TypeError" by (cases epoch) auto
  with Inl assms show ?thesis by (simp add: load_one_def)
next
  case (Inr p)
  show ?thesis
  proof (cases "getattr_self (self w) n")
    case (Inl e)
    then have "e = AttributeError" by (rule getattr_self_error)
    with Inl Inr assms show ?thesis by (simp add: load_one_def)
  next
    case net: (Inr net)
    show ?thesis
    proof (cases "files w p")
      case None
      with Inr net assms show ?thesis by (auto simp: load_one_missing split: if_splits)
    next
      case (Some loaded)
      show ?thesis
      proof (cases "prepare_state_dict (device (self w)) loaded")
        case (Inl e)
        with prepare_state_dict_error[OF Inl] Inr net Some assms show ?thesis
          by (simp add: load_one_def)
      next
        case sd: (Inr sd)
        from assms(1) have "raised (net_load_state_dict lsd net sd
           (w\<lparr>log := log w @ [PathExists p, TorchLoad p (device (self w)), Print (MsgLoading p)]\<rparr>))
           = Some ValueError"
          by (simp add: load_one_exists[OF Inr net Some sd])
        then have False
          using assms(2) nlsd_cases[of net lsd sd
            "w\<lparr>log := log w @ [PathExists p, TorchLoad p (device (self w)), Print (MsgLoading p)]\<rparr>"]
          by (auto split: sum.splits)
        then show ?thesis ..
      qed
    qed
  qed
qed

lemma load_networks_frame:
  "self (world_of (load_networks lsd epoch (w :: 's world))) = self w \<and>
   files (world_of (load_networks lsd epoch w)) = files w"
  unfolding load_networks_def
  by (rule for_names_invariant[where I = "\<lambda>v :: 's world. self v = self w \<and> files v = files w"])
     (simp_all add: load_one_frame)

lemma load_networks_heap:
  assumes "\<forall>n p. n \<in> set (str_entries (model_names (self w))) \<and>
             getattr_self (self w) n = Inr (AVal (PRef a)) \<and>
             load_path (save_dir (self w)) epoch n = Inr p \<longrightarrow> files w p = None"
  shows "heap (world_of (load_networks lsd epoch (w :: 's world))) a = heap w a"
proof -
  let ?I = "\<lambda>v :: 's world. self v = self w \<and> files v = files w \<and> heap v a = heap w a"
  have "?I (world_of (for_names (load_one lsd epoch) (model_names (self w)) w))"
  proof (rule for_names_invariant[where I = ?I])
    fix n v
    assume n: "n \<in> set (str_entries (model_names (self w)))" and v: "?I v"
    have "heap (world_of (load_one lsd epoch n v)) a = heap v a"
    proof (rule ccontr)
      assume "heap (world_of (load_one lsd epoch n v)) a \<noteq> heap v a"
      from load_one_heap[OF this] v assms n show False by auto
    qed
    with v show "?I (world_of (load_one lsd epoch n v))"
      by (simp add: load_one_frame)
  qed simp
  then show ?thesis by (simp add: load_networks_def)
qed

lemma load_networks_ValueError:
  assumes "raised (load_networks lsd epoch (w :: 's world)) = Some ValueError"
    and "\<forall>sd ob. lsd sd ob \<noteq> Inl ValueError"
  shows "isTrain (self w) = False \<and>
     (\<exists>n p. n \<in> set (str_entries (model_names (self w))) \<and>
        load_path (save_dir (self w)) epoch n = Inr p \<and> files w p = None)"
proof -
  let ?I = "\<lambda>v :: 's world. self v = self w \<and> files v = files w"
  have "\<exists>n \<in> set (str_entries (model_names (self w))).
      \<exists>w1. ?I w1 \<and> raised (load_one lsd epoch n w1) = Some ValueError"
    by (rule for_names_raised[where I = ?I])
       (use assms(1) in \<open>simp_all add: load_one_frame load_networks_def\<close>)
  then obtain n w1 where n: "n \<in> set (str_entries (model_names (self w)))"
    and w1: "self w1 = self w" "files w1 = files w"
    and r: "raised (load_one lsd epoch n w1) = Some ValueError" by blast
  from load_one_ValueError[OF r assms(2)] w1 n show ?thesis by auto
qed




lemma nlsd_log:
  "\<exists>new. log (world_of (net_load_state_dict lsd net sd v)) = log v @ new \<and>
     (\<forall>ev \<in> set new. event_path ev = None)"
  using nlsd_cases[of net lsd sd v] by (auto split: sum.splits)

lemma load_one_log:
  assumes p: "load_path (save_dir (self w)) epoch n = Inr p"
  shows "\<exists>new. log (world_of (load_one lsd epoch n w)) = log w @ new \<and>
     (\<forall>ev \<in> set new. \<forall>q. event_path ev = Some q \<longrightarrow> q = p)"
proof (cases "getattr_self (self w) n")
  case (Inl e)
  with p show ?thesis by (simp add: load_one_def)
next
  case net: (Inr net)
  show ?thesis
  proof (cases "files w p")
    case None
    with p net show ?thesis by (simp add: load_one_missing)
  next
    case (Some loaded)
    show ?thesis
    proof (cases "prepare_state_dict (device (self w)) loaded")
      case (Inl e)
      with p net Some show ?thesis by (simp add: load_one_def)
    next
      case sd: (Inr sd)
      let ?v = "w\<lparr>log := log w @ [PathExists p, TorchLoad p (device (self w)),
                                  Print (MsgLoading p)]\<rparr>"
      from nlsd_log[of lsd net sd ?v] obtain new where
        new: "log (world_of (net_load_state_dict lsd net sd ?v)) = log ?v @ new"
          "\<forall>ev \<in> set new. event_path ev = None" by blast
      let ?new = "[PathExists p, TorchLoad p (device (self w)), Print (MsgLoading p)] @ new"
      have "log (world_of (load_one lsd epoch n w)) = log w @ ?new"
        using new(1) by (simp add: load_one_exists[OF p net Some sd])
      moreover have "\<forall>ev \<in> set ?new. \<forall>q. event_path ev = Some q \<longrightarrow> q = p"
        using new(2) by auto
      ultimately show ?thesis by blast
    qed
  qed
qed




lemma for_names_append:
  "for_names body (pre @ rest) w =
     (case for_names body pre w of
        Raised e v \<Rightarrow> Raised e v
      | Done w1 \<Rightarrow> for_names body rest w1)"
proof (induction pre arbitrary: w)
  case Nil
  then show ?case by simp
next
  case (Cons x pre)
  then show ?case by (cases x) (simp_all split: outcome.splits)
qed

lemma load_loop_frame:
  "self (world_of (for_names (load_one lsd epoch) ns (w :: 's world))) = self w \<and>
   files (world_of (for_names (load_one lsd epoch) ns w)) = files w"
  by (rule for_names_invariant[where I = "\<lambda>v :: 's world. self v = self w \<and> files v = files w"])
     (simp_all add: load_one_frame)

lemma load_one_log_mono: "\<exists>new. log (world_of (load_one lsd epoch n w)) = log w @ new"
proof (cases "load_path (save_dir (self w)) epoch n")
  case (Inl e)
  then show ?thesis by (simp add: load_one_def)
next
  case (Inr p)
  from load_one_log[OF Inr, of lsd] show ?thesis by blast
qed

lemma load_loop_log_mono:
  "\<exists>new. log (world_of (for_names (load_one lsd epoch) ns (w :: 's world))) = log w @ new"
proof (rule for_names_invariant[where I = "\<lambda>v :: 's world. \<exists>new. log v = log w @ new"])
  fix n and v :: "'s world"
  assume "\<exists>new. log v = log w @ new"
  then obtain new where "log v = log w @ new" ..
  moreover from load_one_log_mono[of lsd epoch n v] obtain new' where
    "log (world_of (load_one lsd epoch n v)) = log v @ new'" ..
  ultimately have "log (world_of (load_one lsd epoch n v)) = log w @ (new @ new')" by simp
  then show "\<exists>new. log (world_of (load_one lsd epoch n v)) = log w @ new" ..
qed simp

lemma load_loop_Done_step:
  "for_names (load_one lsd epoch) ns w = Done w' \<Longrightarrow> n \<in> set (str_entries ns) \<Longrightarrow>
     \<exists>v v'. self v = self w \<and> files v = files w \<and> load_one lsd epoch n v = Done v' \<and>
       (\<exists>before. log v = log w @ before) \<and> (\<exists>post. log w' = log v' @ post)"
proof (induction ns arbitrary: w)
  case Nil
  then show ?case by simp
next
  case (Cons x ns)
  show ?case
  proof (cases "\<exists>m. x = PStr m")
    case False
    then have "for_names (load_one lsd epoch) (x # ns) w = for_names (load_one lsd epoch) ns w"
      "str_entries (x # ns) = str_entries ns"
      by (cases x; simp)+
    with Cons show ?thesis by simp
  next
    case True
    then obtain m where x: "x = PStr m" by blast
    from Cons.prems(1) x obtain w1 where w1: "load_one lsd epoch m w = Done w1"
      and rest: "for_names (load_one lsd epoch) ns w1 = Done w'"
      by (auto split: outcome.splits)
    have fr: "self w1 = self w" "files w1 = files w"
      using load_one_frame[of lsd epoch m w] w1 by simp_all
    show ?thesis
    proof (cases "n = m")
      case True
      from load_loop_log_mono[of lsd epoch ns w1] rest obtain post where
        "log w' = log w1 @ post" by auto
      moreover have "log w = log w @ []" by simp
      ultimately show ?thesis using w1 True by blast
    next
      case False
      with Cons.prems(2) x have "n \<in> set (str_entries ns)" by simp
      from Cons.IH[OF rest this] obtain v v' where
        v: "self v = self w1" "files v = files w1" "load_one lsd epoch n v = Done v'"
          "\<exists>before. log v = log w1 @ before" "\<exists>post. log w' = log v' @ post"
        by blast
      from load_one_log_mono[of lsd epoch m w] w1 obtain new where "log w1 = log w @ new"
        by auto
      with v(4) have "\<exists>before. log v = log w @ before" by auto
      with v fr show ?thesis by auto
    qed
  qed
qed

lemma load_networks_split:
  assumes names: "model_names (self w) = pre @ PStr n # post"
    and pre: "for_names (load_one lsd epoch) pre w = Done w1"
  shows "load_networks lsd epoch w =
     (case load_one lsd epoch n w1 of
        Raised e v \<Rightarrow> Raised e v
      | Done w2 \<Rightarrow> for_names (load_one lsd epoch) post w2)"
    and "self w1 = self w" and "files w1 = files w"
proof -
  show "load_networks lsd epoch w =
     (case load_one lsd epoch n w1 of
        Raised e v \<Rightarrow> Raised e v
      | Done w2 \<Rightarrow> for_names (load_one lsd epoch) post w2)"
    by (simp add: load_networks_def names for_names_append pre)
  show "self w1 = self w" "files w1 = files w"
    using load_loop_frame[of lsd epoch pre w] pre by simp_all
qed

lemma load_networks_not_Done:
  assumes "isTrain (self w) = False" and "n \<in> set (str_entries (model_names (self w)))"
    and "load_path (save_dir (self w)) epoch n = Inr p" and "files w p = None"
  shows "\<exists>e v. load_networks lsd epoch w = Raised e v"
proof (cases "load_networks lsd epoch w")
  case (Done w')
  then have "for_names (load_one lsd epoch) (model_names (self w)) w = Done w'"
    by (simp add: load_networks_def)
  from load_loop_Done_step[OF this assms(2)] obtain v v' where
    v: "self v = self w" "files v = files w" "load_one lsd epoch n v = Done v'" by blast
  have p: "load_path (save_dir (self v)) epoch n = Inr p" "files v p = None"
    "isTrain (self v) = False"
    using assms v by simp_all
  have False
  proof (cases "getattr_self (self v) n")
    case (Inl e)
    with p v(3) show False by (simp add: load_one_def)
  next
    case (Inr net)
    from load_one_missing[OF p(1) Inr p(2), of lsd] p(3) v(3) show False by simp
  qed
  then show ?thesis ..
qed blast

text \<open>
  C2, as stated, fails: \<open>getattr(self, name)\<close> (line 213) comes before the existence
  check (line 216). On the example with \<open>model_names = ['net_D']\<close>, where \<open>self\<close> has no
  attribute \<open>net_D\<close>, \<open>self.isTrain\<close> is \<open>False\<close> and the checkpoint file of \<open>net_D\<close>
  does not exist, yet the call raises \<open>AttributeError\<close>, not \<open>ValueError\<close>, with the world
  as it was.
\<close>

theorem load_networks_missing_file_counterexample:
  "load_networks example_lsd (PStr ''best'')
     (example_world\<lparr>self := example_model\<lparr>model_names := [PStr ''net_D'']\<rparr>\<rparr>) =
     Raised AttributeError
       (example_world\<lparr>self := example_model\<lparr>model_names := [PStr ''net_D'']\<rparr>\<rparr>)
   \<and> isTrain (self (example_world\<lparr>self := example_model\<lparr>model_names := [PStr ''net_D'']\<rparr>\<rparr>))
       = False
   \<and> load_path
       (save_dir (self (example_world\<lparr>self := example_model\<lparr>model_names := [PStr ''net_D'']\<rparr>\<rparr>)))
       (PStr ''best'') ''net_D'' = Inr ''checkpoints/May/best_net_D.pkl''
   \<and> files (example_world\<lparr>self := example_model\<lparr>model_names := [PStr ''net_D'']\<rparr>\<rparr>)
       ''checkpoints/May/best_net_D.pkl'' = None"
  by (simp add: load_networks_def load_one_def example_world_def example_model_def
      path_join_def getattr_self_def BaseModel_methods_def)

text \<open>
  C2, amended. When the loop of \<open>load_networks\<close> reaches a model name that names an
  attribute of \<open>self\<close> and whose checkpoint file does not exist, the call raises
  \<open>ValueError\<close> there if \<open>self.isTrain\<close> is \<open>False\<close>; if \<open>self.isTrain\<close> is true it
  raises nothing for that name, leaves every network as it is and goes on with the
  names that follow. A name that names no attribute raises \<open>AttributeError\<close> before the
  existence check. Outside training the call never completes when the file of some
  string entry is missing. When the file exists, no \<open>ValueError\<close> comes from the
  existence check: the call raises \<open>ValueError\<close> only outside training and only with a
  missing file, provided the framework's loader does not raise it. A network none of whose
  names has a file on disk keeps its weights through the whole call.
\<close>

theorem load_networks_missing_file:
  "(model_names (self w) = pre @ PStr n # post \<and>
    for_names (load_one lsd epoch) pre w = Done w1 \<and>
    load_path (save_dir (self w)) epoch n = Inr p \<and> files w p = None \<longrightarrow>
      (getattr_self (self w) n = Inr net \<and> isTrain (self w) = False \<longrightarrow>
         load_networks lsd epoch w =
           Raised ValueError (w1\<lparr>log := log w1 @ [PathExists p, Print (MsgNoWeights p)]\<rparr>)) \<and>
      (getattr_self (self w) n = Inr net \<and> isTrain (self w) \<longrightarrow>
         load_networks lsd epoch w =
           for_names (load_one lsd epoch) post
             (w1\<lparr>log := log w1 @ [PathExists p, Print (MsgNoWeights p)]\<rparr>)) \<and>
      (getattr_self (self w) n = Inl e \<longrightarrow>
         load_networks lsd epoch w = Raised AttributeError w1))
   \<and> (isTrain (self w) = False \<and> n \<in> set (str_entries (model_names (self w))) \<and>
       load_path (save_dir (self w)) epoch n = Inr p \<and> files w p = None \<longrightarrow>
      (\<exists>e v. load_networks lsd epoch w = Raised e v))
   \<and> (load_path (save_dir (self w)) epoch n = Inr p \<and> getattr_self (self w) n = Inr net \<and>
       files w p = None \<longrightarrow>
      (raised (load_one lsd epoch n w) = Some ValueError) = (isTrain (self w) = False) \<and>
      (isTrain (self w) \<longrightarrow> raised (load_one lsd epoch n w) = None) \<and>
      heap (world_of (load_one lsd epoch n w)) = heap w)
   \<and> (load_path (save_dir (self w)) epoch n = Inr p \<and> files w p \<noteq> None \<and>
       (\<forall>sd ob. lsd sd ob \<noteq> Inl ValueError) \<longrightarrow>
      raised (load_one lsd epoch n w) \<noteq> Some ValueError)
   \<and> (raised (load_networks lsd epoch w) = Some ValueError \<and>
       (\<forall>sd ob. lsd sd ob \<noteq> Inl ValueError) \<longrightarrow>
      isTrain (self w) = False \<and>
      (\<exists>n p. n \<in> set (str_entries (model_names (self w))) \<and>
         load_path (save_dir (self w)) epoch n = Inr p \<and> files w p = None))
   \<and> ((\<forall>n p. n \<in> set (str_entries (model_names (self w))) \<and>
           getattr_self (self w) n = Inr (AVal (PRef a)) \<and>
           load_path (save_dir (self w)) epoch n = Inr p \<longrightarrow> files w p = None)
        \<longrightarrow> heap (world_of (load_networks lsd epoch w)) a = heap w a)"
proof -
  have split: "(getattr_self (self w) n = Inr net \<and> isTrain (self w) = False \<longrightarrow>
         load_networks lsd epoch w =
           Raised ValueError (w1\<lparr>log := log w1 @ [PathExists p, Print (MsgNoWeights p)]\<rparr>)) \<and>
      (getattr_self (self w) n = Inr net \<and> isTrain (self w) \<longrightarrow>
         load_networks lsd epoch w =
           for_names (load_one lsd epoch) post
             (w1\<lparr>log := log w1 @ [PathExists p, Print (MsgNoWeights p)]\<rparr>)) \<and>
      (getattr_self (self w) n = Inl e \<longrightarrow>
         load_networks lsd epoch w = Raised AttributeError w1)"
    if h: "model_names (self w) = pre @ PStr n # post \<and>
      for_names (load_one lsd epoch) pre w = Done w1 \<and>
      load_path (save_dir (self w)) epoch n = Inr p \<and> files w p = None"
  proof -
    from h have names: "model_names (self w) = pre @ PStr n # post"
      and pre: "for_names (load_one lsd epoch) pre w = Done w1" by blast+
    note S = load_networks_split[OF names pre]
    have p1: "load_path (save_dir (self w1)) epoch n = Inr p" "files w1 p = None"
      using h S(2,3) by simp_all
    have miss: "load_one lsd epoch n w1 =
       (if isTrain (self w)
        then Done (w1\<lparr>log := log w1 @ [PathExists p, Print (MsgNoWeights p)]\<rparr>)
        else Raised ValueError (w1\<lparr>log := log w1 @ [PathExists p, Print (MsgNoWeights p)]\<rparr>))"
      if "getattr_self (self w) n = Inr net"
      using load_one_missing[OF p1(1) _ p1(2), of net lsd] that S(2) by simp
    have none: "load_one lsd epoch n w1 = Raised AttributeError w1"
      if g: "getattr_self (self w) n = Inl e"
    proof -
      from g have "e = AttributeError" by (rule getattr_self_error)
      with g p1(1) S(2) show ?thesis by (simp add: load_one_def)
    qed
    show ?thesis
      using S(1) miss none by (auto split: outcome.splits)
  qed
  have nd: "\<exists>e v. load_networks lsd epoch w = Raised e v"
    if "isTrain (self w) = False \<and> n \<in> set (str_entries (model_names (self w))) \<and>
       load_path (save_dir (self w)) epoch n = Inr p \<and> files w p = None"
    using that load_networks_not_Done[of w n epoch p lsd] by blast
  have one: "(raised (load_one lsd epoch n w) = Some ValueError) = (isTrain (self w) = False) \<and>
      (isTrain (self w) \<longrightarrow> raised (load_one lsd epoch n w) = None) \<and>
      heap (world_of (load_one lsd epoch n w)) = heap w"
    if "load_path (save_dir (self w)) epoch n = Inr p \<and> getattr_self (self w) n = Inr net \<and>
       files w p = None"
    using that by (simp add: load_one_missing)
  have ex: "raised (load_one lsd epoch n w) \<noteq> Some ValueError"
    if a: "load_path (save_dir (self w)) epoch n = Inr p \<and> files w p \<noteq> None \<and>
       (\<forall>sd ob. lsd sd ob \<noteq> Inl ValueError)"
  proof
    assume "raised (load_one lsd epoch n w) = Some ValueError"
    from load_one_ValueError[OF this] a show False by auto
  qed
  have snd: "isTrain (self w) = False \<and>
      (\<exists>n p. n \<in> set (str_entries (model_names (self w))) \<and>
         load_path (save_dir (self w)) epoch n = Inr p \<and> files w p = None)"
    if "raised (load_networks lsd epoch w) = Some ValueError \<and>
       (\<forall>sd ob. lsd sd ob \<noteq> Inl ValueError)"
    using that load_networks_ValueError[of lsd epoch w] by blast
  have fr: "heap (world_of (load_networks lsd epoch w)) a = heap w a"
    if "\<forall>n p. n \<in> set (str_entries (model_names (self w))) \<and>
           getattr_self (self w) n = Inr (AVal (PRef a)) \<and>
           load_path (save_dir (self w)) epoch n = Inr p \<longrightarrow> files w p = None"
    using that by (rule load_networks_heap)
  from split nd one ex snd fr show ?thesis by blast
qed

theorem load_networks_missing_file_witness:
  "load_networks example_lsd (PStr ''best'') example_world =
     Raised ValueError
       (example_world\<lparr>log := [PathExists ''checkpoints/May/best_net_G.pkl'',
                               Print (MsgNoWeights ''checkpoints/May/best_net_G.pkl'')]\<rparr>)
   \<and> load_networks example_lsd (PStr ''best'')
       (example_world\<lparr>self := example_model\<lparr>isTrain := True\<rparr>\<rparr>) =
     Done (example_world\<lparr>self := example_model\<lparr>isTrain := True\<rparr>,
                         log := [PathExists ''checkpoints/May/best_net_G.pkl'',
                                 Print (MsgNoWeights ''checkpoints/May/best_net_G.pkl'')]\<rparr>)
   \<and> raised (load_one example_lsd (PStr ''latest'') ''net_G'' example_world) \<noteq> Some ValueError"
proof -
  let ?T = "example_world\<lparr>self := example_model\<lparr>isTrain := True\<rparr>\<rparr>"
  let ?p = "''checkpoints/May/best_net_G.pkl''"
  have i: "model_names (self example_world) = [] @ PStr ''net_G'' # [PNone] \<and>
      for_names (load_one example_lsd (PStr ''best'')) [] example_world = Done example_world \<and>
      load_path (save_dir (self example_world)) (PStr ''best'') ''net_G'' = Inr ?p \<and>
      files example_world ?p = None"
    by (simp add: example_world_def example_model_def path_join_def)
  have ig: "getattr_self (self example_world) ''net_G'' = Inr (AVal (PRef 0)) \<and>
      isTrain (self example_world) = False"
    by (simp add: example_world_def example_model_def getattr_self_def)
  have t: "model_names (self ?T) = [] @ PStr ''net_G'' # [PNone] \<and>
      for_names (load_one example_lsd (PStr ''best'')) [] ?T = Done ?T \<and>
      load_path (save_dir (self ?T)) (PStr ''best'') ''net_G'' = Inr ?p \<and>
      files ?T ?p = None"
    by (simp add: example_world_def example_model_def path_join_def)
  have tg: "getattr_self (self ?T) ''net_G'' = Inr (AVal (PRef 0)) \<and> isTrain (self ?T)"
    by (simp add: example_model_def getattr_self_def)
  let ?q = "''checkpoints/May/latest_net_G.pkl''"
  have x: "load_path (save_dir (self example_world)) (PStr ''latest'') ''net_G'' = Inr ?q \<and>
      files example_world ?q \<noteq> None \<and> (\<forall>sd ob. example_lsd sd ob \<noteq> Inl ValueError)"
    by (simp add: example_world_def example_model_def path_join_def example_lsd_def)
  from load_networks_missing_file[where w = example_world and pre = "[]" and n = "''net_G''"
      and post = "[PNone]" and lsd = example_lsd and epoch = "PStr ''best''"
      and ?w1.0 = example_world and p = ?p and net = "AVal (PRef 0)"] i ig
  have 1: "load_networks example_lsd (PStr ''best'') example_world =
     Raised ValueError (example_world\<lparr>log := log example_world @
        [PathExists ?p, Print (MsgNoWeights ?p)]\<rparr>)"
    by blast
  from load_networks_missing_file[where w = ?T and pre = "[]" and n = "''net_G''"
      and post = "[PNone]" and lsd = example_lsd and epoch = "PStr ''best''"
      and ?w1.0 = ?T and p = ?p and net = "AVal (PRef 0)"] t tg
  have 2: "load_networks example_lsd (PStr ''best'') ?T =
     for_names (load_one example_lsd (PStr ''best'')) [PNone]
       (?T\<lparr>log := log ?T @ [PathExists ?p, Print (MsgNoWeights ?p)]\<rparr>)"
    by blast
  from load_networks_missing_file[where w = example_world and n = "''net_G''"
      and lsd = example_lsd and epoch = "PStr ''latest''" and p = ?q] x
  have 3: "raised (load_one example_lsd (PStr ''latest'') ''net_G'' example_world) \<noteq> Some ValueError"
    by blast
  have lg: "log example_world = []" by (simp add: example_world_def)
  from 1 2 3 lg show ?thesis by (simp add: example_world_def)
qed



section \<open>Key rewriting on the CPU device\<close>

lemma od_pop_present:
  "k \<in> fst ` set d \<Longrightarrow> \<exists>v. od_pop k d = Inr (v, od_del k d)"
  by (auto simp: od_pop_def map_of_eq_None_iff split: option.splits)

lemma strip_loop_keys:
  "distinct (map fst d) \<Longrightarrow> distinct ks \<Longrightarrow> set ks \<subseteq> fst ` set d \<Longrightarrow>
     \<exists>es. strip_loop ks d = Inr es \<and> distinct (map fst es) \<and>
       fst ` set es \<subseteq> (fst ` set d - set ks) \<union> drop 7 ` set ks \<and>
       (fst ` set d \<union> drop 7 ` set ks) - set ks \<subseteq> fst ` set es"
proof (induction ks arbitrary: d)
  case Nil
  then show ?case by simp
next
  case (Cons k ks)
  from Cons.prems(3) have kin: "k \<in> fst ` set d" by simp
  from od_pop_present[OF kin] obtain v where pop: "od_pop k d = Inr (v, od_del k d)" by blast
  let ?d2 = "od_set (drop 7 k) v (od_del k d)"
  have keys2: "fst ` set ?d2 = insert (drop 7 k) (fst ` set d - {k})"
    using Cons.prems(1) by (simp add: od_set_keys od_del_keys)
  have d2: "distinct (map fst ?d2)"
    using Cons.prems(1) by (simp add: distinct_od_set distinct_od_del)
  have sub: "set ks \<subseteq> fst ` set ?d2"
    using Cons.prems(2,3) unfolding keys2 by auto
  from Cons.prems(2) have dks: "distinct ks" by simp
  from Cons.IH[OF d2 dks sub] obtain es where es: "strip_loop ks ?d2 = Inr es"
    "distinct (map fst es)"
    "fst ` set es \<subseteq> (fst ` set ?d2 - set ks) \<union> drop 7 ` set ks"
    "(fst ` set ?d2 \<union> drop 7 ` set ks) - set ks \<subseteq> fst ` set es"
    by blast
  have run: "strip_loop (k # ks) d = Inr es" using pop es(1) by simp
  have up: "fst ` set es \<subseteq> (fst ` set d - set (k # ks)) \<union> drop 7 ` set (k # ks)"
    using es(3) unfolding keys2 by auto
  have lo: "(fst ` set d \<union> drop 7 ` set (k # ks)) - set (k # ks) \<subseteq> fst ` set es"
    using es(4) unfolding keys2 by auto
  from run es(2) up lo show ?case by blast
qed

lemma strip_loop_pending:
  "(\<forall>k \<in> fst ` set pending. drop 7 k \<notin> fst ` set pending) \<Longrightarrow>
     strip_loop (map fst pending) (pending @ processed) =
       Inr (foldl (\<lambda>d kv. od_set (drop 7 (fst kv)) (snd kv) d) processed pending)"
proof (induction pending arbitrary: processed)
  case Nil
  then show ?case by simp
next
  case (Cons kv pending)
  obtain k v where kv: "kv = (k, v)" by (cases kv)
  have pop: "od_pop k ((k, v) # pending @ processed) = Inr (v, pending @ processed)"
    by (simp add: od_pop_def)
  have notin: "drop 7 k \<notin> fst ` set pending"
    using Cons.prems kv by auto
  have set_eq: "od_set (drop 7 k) v (pending @ processed) =
      pending @ od_set (drop 7 k) v processed"
    using notin by (rule od_set_append)
  have rest: "\<forall>k \<in> fst ` set pending. drop 7 k \<notin> fst ` set pending"
    using Cons.prems by auto
  show ?case
    using Cons.IH[OF rest, of "od_set (drop 7 k) v processed"] pop set_eq
    by (simp add: kv)
qed

lemma od_set_fresh: "k \<notin> fst ` set d \<Longrightarrow> od_set k v d = d @ [(k, v)]"
  using od_set_append[of k d v "[]"] by simp

lemma foldl_od_set_fresh:
  "distinct (map (\<lambda>kv. drop 7 (fst kv)) pending) \<Longrightarrow>
   (\<forall>kv \<in> set pending. drop 7 (fst kv) \<notin> fst ` set processed) \<Longrightarrow>
     foldl (\<lambda>d kv. od_set (drop 7 (fst kv)) (snd kv) d) processed pending =
       processed @ map (\<lambda>(k, v). (drop 7 k, v)) pending"
proof (induction pending arbitrary: processed)
  case Nil
  then show ?case by simp
next
  case (Cons kv pending)
  obtain k v where kv: "kv = (k, v)" by (cases kv)
  have fresh: "drop 7 k \<notin> fst ` set processed" using Cons.prems(2) kv by auto
  have step: "od_set (drop 7 k) v processed = processed @ [(drop 7 k, v)]"
    using fresh by (rule od_set_fresh)
  have d: "distinct (map (\<lambda>kv. drop 7 (fst kv)) pending)" using Cons.prems(1) by simp
  have f: "\<forall>kv' \<in> set pending. drop 7 (fst kv') \<notin> fst ` set (processed @ [(drop 7 k, v)])"
    using Cons.prems kv by (auto simp: image_iff)
  show ?case
    using Cons.IH[OF d f] step by (simp add: kv)
qed

lemma strip_loop_rename:
  assumes "\<forall>k \<in> fst ` set es0. drop 7 k \<notin> fst ` set es0"
    and "distinct (map (\<lambda>kv. drop 7 (fst kv)) es0)"
  shows "strip_loop (map fst es0) es0 = Inr (map (\<lambda>(k, v). (drop 7 k, v)) es0)"
  using strip_loop_pending[OF assms(1), of "[]"] foldl_od_set_fresh[OF assms(2), of "[]"]
  by simp



lemma load_one_cpu:
  assumes "device (self v) = Cpu"
    and "load_path (save_dir (self v)) epoch n = Inr p"
    and "getattr_self (self v) n = Inr (AVal (PRef a))"
    and "files v p = Some loaded"
    and "strip_loop (map fst (entries loaded)) (entries loaded) = Inr es"
  shows "load_one lsd epoch n v =
     (case lsd \<lparr>entries = es, has_metadata = False\<rparr> (heap v a) of
        Inl e \<Rightarrow>
          Raised e (v\<lparr>log := log v @ [PathExists p, TorchLoad p Cpu, Print (MsgLoading p),
                      LoadStateDict (PRef a) \<lparr>entries = es, has_metadata = False\<rparr>]\<rparr>)
      | Inr ob \<Rightarrow>
          Done (v\<lparr>heap := (heap v)(a := ob),
                  log := log v @ [PathExists p, TorchLoad p Cpu, Print (MsgLoading p),
                      LoadStateDict (PRef a) \<lparr>entries = es, has_metadata = False\<rparr>]\<rparr>))"
proof -
  have prep: "prepare_state_dict (device (self v)) loaded =
      Inr \<lparr>entries = es, has_metadata = False\<rparr>"
    using assms(1,5) by (simp add: prepare_state_dict_def)
  show ?thesis
    using load_one_exists[OF assms(2,3,4) prep, of lsd] assms(1)
    by (simp split: sum.splits)
qed

text \<open>
  C9. On the CPU device \<open>load_networks\<close> rewrites every key of the loaded state
  dictionary to the key without its first seven characters before it calls
  \<open>load_state_dict\<close>, whatever the key starts with. When the loop reaches a name with a
  checkpoint file, the call hands to \<open>load_state_dict\<close> the dictionary that the rewriting
  loop leaves, and goes on with the names that follow; when the call completes, the log
  holds that \<open>load_state_dict\<close> call for every string entry with a file. Every key of that
  dictionary is an original key cut by seven characters, every cut key is there unless it
  is itself an original key, and when no cut key is an original key and the cut keys are
  distinct, the dictionary is the loaded one with every key cut. A key without the prefix
  \<open>module.\<close> is cut like any other.
\<close>

theorem load_networks_cpu_strips_keys:
  "(device (self w) = Cpu \<and> load_path (save_dir (self w)) epoch n = Inr p \<and>
    getattr_self (self w) n = Inr (AVal (PRef a)) \<and> files w p = Some loaded \<and>
    distinct (map fst (entries loaded)) \<longrightarrow>
      (\<exists>es. strip_loop (map fst (entries loaded)) (entries loaded) = Inr es \<and>
         fst ` set es \<subseteq> drop 7 ` fst ` set (entries loaded) \<and>
         drop 7 ` fst ` set (entries loaded) - fst ` set (entries loaded) \<subseteq> fst ` set es \<and>
         ((\<forall>k \<in> fst ` set (entries loaded). drop 7 k \<notin> fst ` set (entries loaded)) \<and>
          distinct (map (\<lambda>kv. drop 7 (fst kv)) (entries loaded))
          \<longrightarrow> es = map (\<lambda>(k, v). (drop 7 k, v)) (entries loaded)) \<and>
         (model_names (self w) = pre @ PStr n # post \<and>
          for_names (load_one lsd epoch) pre w = Done w1 \<longrightarrow>
            load_networks lsd epoch w =
              (case lsd \<lparr>entries = es, has_metadata = False\<rparr> (heap w1 a) of
                 Inl e \<Rightarrow>
                   Raised e (w1\<lparr>log := log w1 @
                     [PathExists p, TorchLoad p Cpu, Print (MsgLoading p),
                      LoadStateDict (PRef a) \<lparr>entries = es, has_metadata = False\<rparr>]\<rparr>)
               | Inr ob \<Rightarrow>
                   for_names (load_one lsd epoch) post
                     (w1\<lparr>heap := (heap w1)(a := ob),
                         log := log w1 @
                           [PathExists p, TorchLoad p Cpu, Print (MsgLoading p),
                            LoadStateDict (PRef a) \<lparr>entries = es, has_metadata = False\<rparr>]\<rparr>))) \<and>
         (n \<in> set (str_entries (model_names (self w))) \<and>
          load_networks lsd epoch w = Done w' \<longrightarrow>
            (\<exists>new. log w' = log w @ new \<and>
               LoadStateDict (PRef a) \<lparr>entries = es, has_metadata = False\<rparr> \<in> set new))))"
proof (intro impI)
  assume h: "device (self w) = Cpu \<and> load_path (save_dir (self w)) epoch n = Inr p \<and>
    getattr_self (self w) n = Inr (AVal (PRef a)) \<and> files w p = Some loaded \<and>
    distinct (map fst (entries loaded))"
  then have dev: "device (self w) = Cpu" and path: "load_path (save_dir (self w)) epoch n = Inr p"
    and net: "getattr_self (self w) n = Inr (AVal (PRef a))"
    and fl: "files w p = Some loaded" and dist: "distinct (map fst (entries loaded))"
    by blast+
  let ?ks = "map fst (entries loaded)"
  have "distinct ?ks" "set ?ks \<subseteq> fst ` set (entries loaded)"
    using dist by simp_all
  from strip_loop_keys[OF dist this] obtain es where
    es: "strip_loop ?ks (entries loaded) = Inr es"
      "fst ` set es \<subseteq> (fst ` set (entries loaded) - set ?ks) \<union> drop 7 ` set ?ks"
      "(fst ` set (entries loaded) \<union> drop 7 ` set ?ks) - set ?ks \<subseteq> fst ` set es"
    by blast
  let ?sd = "\<lparr>entries = es, has_metadata = False\<rparr>"
  let ?ev = "[PathExists p, TorchLoad p Cpu, Print (MsgLoading p), LoadStateDict (PRef a) ?sd]"
  have ks: "set ?ks = fst ` set (entries loaded)" by simp
  have up: "fst ` set es \<subseteq> drop 7 ` fst ` set (entries loaded)"
    using es(2) unfolding ks by blast
  have lo: "drop 7 ` fst ` set (entries loaded) - fst ` set (entries loaded) \<subseteq> fst ` set es"
    using es(3) unfolding ks by blast
  have ren: "(\<forall>k \<in> fst ` set (entries loaded). drop 7 k \<notin> fst ` set (entries loaded)) \<and>
      distinct (map (\<lambda>kv. drop 7 (fst kv)) (entries loaded))
      \<longrightarrow> es = map (\<lambda>(k, v). (drop 7 k, v)) (entries loaded)"
    using strip_loop_rename[of "entries loaded"] es(1) by auto
  have one: "load_one lsd epoch n v =
     (case lsd ?sd (heap v a) of
        Inl e \<Rightarrow> Raised e (v\<lparr>log := log v @ ?ev\<rparr>)
      | Inr ob \<Rightarrow> Done (v\<lparr>heap := (heap v)(a := ob), log := log v @ ?ev\<rparr>))"
    if "self v = self w" "files v = files w" for v
    using load_one_cpu[of v epoch n p a loaded es lsd] that dev path net fl es(1) by simp
  have dec: "load_networks lsd epoch w =
              (case lsd ?sd (heap w1 a) of
                 Inl e \<Rightarrow> Raised e (w1\<lparr>log := log w1 @ ?ev\<rparr>)
               | Inr ob \<Rightarrow>
                   for_names (load_one lsd epoch) post
                     (w1\<lparr>heap := (heap w1)(a := ob), log := log w1 @ ?ev\<rparr>))"
    if d: "model_names (self w) = pre @ PStr n # post \<and>
          for_names (load_one lsd epoch) pre w = Done w1"
  proof -
    from d have names: "model_names (self w) = pre @ PStr n # post"
      and pre: "for_names (load_one lsd epoch) pre w = Done w1" by blast+
    note S = load_networks_split[OF names pre]
    show ?thesis
      unfolding S(1) one[OF S(2,3)] by (simp split: sum.splits)
  qed
  have mem: "\<exists>new. log w' = log w @ new \<and> LoadStateDict (PRef a) ?sd \<in> set new"
    if m: "n \<in> set (str_entries (model_names (self w))) \<and> load_networks lsd epoch w = Done w'"
  proof -
    from m have "for_names (load_one lsd epoch) (model_names (self w)) w = Done w'"
      by (simp add: load_networks_def)
    from load_loop_Done_step[OF this] m obtain v v' before after where
      v: "self v = self w" "files v = files w" "load_one lsd epoch n v = Done v'"
        "log v = log w @ before" "log w' = log v' @ after"
      by blast
    from v(3) one[OF v(1,2)] have "log v' = log v @ ?ev"
      by (auto split: sum.splits)
    with v(4,5) have "log w' = log w @ (before @ ?ev @ after)" by simp
    moreover have "LoadStateDict (PRef a) ?sd \<in> set (before @ ?ev @ after)" by simp
    ultimately show ?thesis by blast
  qed
  from es(1) up lo ren dec mem
  show "\<exists>es. strip_loop (map fst (entries loaded)) (entries loaded) = Inr es \<and>
         fst ` set es \<subseteq> drop 7 ` fst ` set (entries loaded) \<and>
         drop 7 ` fst ` set (entries loaded) - fst ` set (entries loaded) \<subseteq> fst ` set es \<and>
         ((\<forall>k \<in> fst ` set (entries loaded). drop 7 k \<notin> fst ` set (entries loaded)) \<and>
          distinct (map (\<lambda>kv. drop 7 (fst kv)) (entries loaded))
          \<longrightarrow> es = map (\<lambda>(k, v). (drop 7 k, v)) (entries loaded)) \<and>
         (model_names (self w) = pre @ PStr n # post \<and>
          for_names (load_one lsd epoch) pre w = Done w1 \<longrightarrow>
            load_networks lsd epoch w =
              (case lsd \<lparr>entries = es, has_metadata = False\<rparr> (heap w1 a) of
                 Inl e \<Rightarrow>
                   Raised e (w1\<lparr>log := log w1 @
                     [PathExists p, TorchLoad p Cpu, Print (MsgLoading p),
                      LoadStateDict (PRef a) \<lparr>entries = es, has_metadata = False\<rparr>]\<rparr>)
               | Inr ob \<Rightarrow>
                   for_names (load_one lsd epoch) post
                     (w1\<lparr>heap := (heap w1)(a := ob),
                         log := log w1 @
                           [PathExists p, TorchLoad p Cpu, Print (MsgLoading p),
                            LoadStateDict (PRef a) \<lparr>entries = es, has_metadata = False\<rparr>]\<rparr>))) \<and>
         (n \<in> set (str_entries (model_names (self w))) \<and>
          load_networks lsd epoch w = Done w' \<longrightarrow>
            (\<exists>new. log w' = log w @ new \<and>
               LoadStateDict (PRef a) \<lparr>entries = es, has_metadata = False\<rparr> \<in> set new))"
    by blast
qed

theorem load_networks_cpu_strips_keys_witness:
  "log (world_of (load_networks example_lsd (PStr ''latest'')
       (example_world\<lparr>files := [''checkpoints/May/latest_net_G.pkl'' \<mapsto> plain_checkpoint]\<rparr>))) =
     [PathExists ''checkpoints/May/latest_net_G.pkl'',
      TorchLoad ''checkpoints/May/latest_net_G.pkl'' Cpu,
      Print (MsgLoading ''checkpoints/May/latest_net_G.pkl''),
      LoadStateDict (PRef 0)
        \<lparr>entries = [(''ight'', Tensor 9 4), (''nning_var'', Tensor 3 6)], has_metadata = False\<rparr>]"
proof -
  let ?W = "example_world\<lparr>files := [''checkpoints/May/latest_net_G.pkl'' \<mapsto> plain_checkpoint]\<rparr>"
  let ?p = "''checkpoints/May/latest_net_G.pkl''"
  let ?es = "[(''ight'', Tensor 9 4), (''nning_var'', Tensor 3 6)]"
  have h: "device (self ?W) = Cpu \<and>
    load_path (save_dir (self ?W)) (PStr ''latest'') ''net_G'' = Inr ?p \<and>
    getattr_self (self ?W) ''net_G'' = Inr (AVal (PRef 0)) \<and>
    files ?W ?p = Some plain_checkpoint \<and>
    distinct (map fst (entries plain_checkpoint))"
    by (simp add: example_world_def example_model_def path_join_def plain_checkpoint_def
        getattr_self_def)
  have c: "(\<forall>k \<in> fst ` set (entries plain_checkpoint).
              drop 7 k \<notin> fst ` set (entries plain_checkpoint)) \<and>
      distinct (map (\<lambda>kv. drop 7 (fst kv)) (entries plain_checkpoint))"
    by (simp add: plain_checkpoint_def)
  have m: "map (\<lambda>(k, v). (drop 7 k, v)) (entries plain_checkpoint) = ?es"
    by (simp add: plain_checkpoint_def)
  have d: "model_names (self ?W) = [] @ PStr ''net_G'' # [PNone] \<and>
      for_names (load_one example_lsd (PStr ''latest'')) [] ?W = Done ?W"
    by (simp add: example_world_def example_model_def)
  from load_networks_cpu_strips_keys[where w = ?W and epoch = "PStr ''latest''"
      and n = "''net_G''" and p = ?p and a = 0 and loaded = plain_checkpoint
      and lsd = example_lsd and pre = "[]" and post = "[PNone]" and ?w1.0 = ?W] h c d m
  have eq: "load_networks example_lsd (PStr ''latest'') ?W =
      (case example_lsd \<lparr>entries = ?es, has_metadata = False\<rparr> (heap ?W 0) of
         Inl e \<Rightarrow>
           Raised e (?W\<lparr>log := log ?W @
             [PathExists ?p, TorchLoad ?p Cpu, Print (MsgLoading ?p),
              LoadStateDict (PRef 0) \<lparr>entries = ?es, has_metadata = False\<rparr>]\<rparr>)
       | Inr ob \<Rightarrow>
           for_names (load_one example_lsd (PStr ''latest'')) [PNone]
             (?W\<lparr>heap := (heap ?W)(0 := ob),
                 log := log ?W @
                   [PathExists ?p, TorchLoad ?p Cpu, Print (MsgLoading ?p),
                    LoadStateDict (PRef 0) \<lparr>entries = ?es, has_metadata = False\<rparr>]\<rparr>))"
    by auto
  have l: "example_lsd \<lparr>entries = ?es, has_metadata = False\<rparr> (heap ?W 0) = Inr (heap ?W 0)"
    by (simp add: example_lsd_def example_world_def example_heap_def example_net_def)
  have lg: "log ?W = []" by (simp add: example_world_def)
  show ?thesis unfolding eq l by (simp add: lg)
qed

section \<open>The instance-normalisation patch\<close>










section \<open>The steps of \<open>BaseModel.setup\<close>\<close>

lemma make_schedulers_Inr:
  "make_schedulers gs op os h = (Inr ss, h') \<Longrightarrow>
     list_all2 (\<lambda>a s. \<exists>h1 h2. gs a op h1 = Inr (s, h2)) os ss"
proof (induction os arbitrary: h ss)
  case Nil
  then show ?case by simp
next
  case (Cons a os)
  from Cons.prems obtain s h1 ss' where s: "gs a op h = Inr (s, h1)"
    and rest: "make_schedulers gs op os h1 = (Inr ss', h')" and ss: "ss = s # ss'"
    by (auto split: sum.splits prod.splits)
  from Cons.IH[OF rest] s ss show ?case by auto
qed

lemma print_net_cases:
  "(\<exists>a. net = AVal (PRef a)) \<or> print_net verbose n net w = Raised AttributeError w"
  by (cases "(verbose, n, net, w)" rule: print_net.cases) auto

lemma print_net_self: "self (world_of (print_net verbose n net w)) = self w"
  using print_net_cases[of net verbose n w] by auto

lemma print_net_log: "\<exists>new. log (world_of (print_net verbose n net w)) = log w @ new"
  using print_net_cases[of net verbose n w] by auto

lemma print_body_log: "\<exists>new. log (world_of (print_body verbose n w)) = log w @ new"
  using print_net_log[of verbose n _ w] by (auto simp: print_body_def split: sum.splits)

lemma print_networks_first:
  "\<exists>new. log (world_of (print_networks verbose (w :: 's world))) =
     log w @ Print MsgNetworksInitialized # new"
proof -
  let ?w0 = "w\<lparr>log := log w @ [Print MsgNetworksInitialized]\<rparr>"
  let ?I = "\<lambda>v :: 's world. \<exists>new. log v = log ?w0 @ new"
  have "?I (world_of (for_names (print_body verbose) (model_names (self w)) ?w0))"
  proof (rule for_names_invariant[where I = ?I])
    fix n and v :: "'s world"
    assume "?I v"
    then obtain new where "log v = log ?w0 @ new" ..
    moreover from print_body_log[of verbose n v] obtain new' where
      "log (world_of (print_body verbose n v)) = log v @ new'" ..
    ultimately have "log (world_of (print_body verbose n v)) = log ?w0 @ (new @ new')" by simp
    then show "?I (world_of (print_body verbose n v))" ..
  qed simp
  then obtain new where
    n: "log (world_of (for_names (print_body verbose) (model_names (self w)) ?w0)) = log ?w0 @ new" ..
  show ?thesis
  proof (cases "for_names (print_body verbose) (model_names (self w)) ?w0")
    case (Done v)
    with n have "log (world_of (print_networks verbose w)) =
        log w @ Print MsgNetworksInitialized # (new @ [Print MsgRule])"
      by (simp add: print_networks_def)
    then show ?thesis ..
  next
    case (Raised e v)
    with n have "log (world_of (print_networks verbose w)) =
        log w @ Print MsgNetworksInitialized # new"
      by (simp add: print_networks_def)
    then show ?thesis ..
  qed
qed

lemma print_body_self: "self (world_of (print_body verbose n w)) = self w"
  by (auto simp: print_body_def print_net_self split: sum.splits)

lemma print_networks_self:
  "self (world_of (print_networks verbose (w :: 's world))) = self w"
proof -
  let ?w0 = "w\<lparr>log := log w @ [Print MsgNetworksInitialized]\<rparr>"
  have "self (world_of (for_names (print_body verbose) (model_names (self w)) ?w0)) = self w"
    by (rule for_names_invariant[where I = "\<lambda>v :: 's world. self v = self w"])
       (simp_all add: print_body_self)
  then show ?thesis
    by (auto simp: print_networks_def split: outcome.splits)
qed

lemma print_networks_last: "print_networks verbose w = Done w' \<Longrightarrow> last (log w') = Print MsgRule"
  by (auto simp: print_networks_def split: outcome.splits)


text \<open>
  C4, as stated, fails: \<open>print_networks\<close> is not always called. In inference with the
  checkpoint missing, \<open>load_networks\<close> raises \<open>ValueError\<close> (lines 227 to 229) and
  \<open>BaseModel.setup\<close> ends there: on the example the log holds the existence check and
  the warning of \<open>load_networks\<close> and nothing of \<open>print_networks\<close>.
\<close>

theorem BaseModel_setup_counterexample:
  "BaseModel_setup example_gs example_lsd (example_options\<lparr>opt_load_epoch := PStr ''best''\<rparr>)
     example_world =
     Raised ValueError
       (example_world\<lparr>log := [PathExists ''checkpoints/May/best_net_G.pkl'',
                               Print (MsgNoWeights ''checkpoints/May/best_net_G.pkl'')]\<rparr>)"
  by (simp add: BaseModel_setup_def load_networks_def load_one_def example_world_def
      example_model_def example_options_def path_join_def getattr_self_def)

text \<open>
  C4, amended. \<open>BaseModel.setup(opt)\<close> assigns to \<open>self.schedulers\<close> one scheduler per
  entry of \<open>self.optimizers\<close>, in order and each made by \<open>get_scheduler\<close>, when
  \<open>self.isTrain\<close> is true, and leaves the attribute alone otherwise; it then runs
  \<open>load_networks(opt.load_epoch)\<close> exactly when \<open>self.isTrain\<close> is false or
  \<open>opt.continue_train\<close> is true; and it ends with \<open>print_networks(opt.verbose)\<close>, on the
  world that these steps leave, whenever neither \<open>get_scheduler\<close> nor \<open>load_networks\<close>
  has raised. When one of them raises, \<open>BaseModel.setup\<close> raises the same exception
  and \<open>print_networks\<close> is not called. \<open>print_networks\<close> always prints its heading.
\<close>

theorem BaseModel_setup_steps:
  "(BaseModel_setup gs lsd op w = Done w' \<longrightarrow>
      (\<exists>w1 w2.
         (if isTrain (self w)
          then \<exists>ss h. make_schedulers gs op (optimizers (self w)) (heap w) = (Inr ss, h) \<and>
                 list_all2 (\<lambda>a s. \<exists>h1 h2. gs a op h1 = Inr (s, h2)) (optimizers (self w)) ss \<and>
                 w1 = w\<lparr>self := (self w)\<lparr>schedulers := Some ss\<rparr>, heap := h\<rparr> \<and>
                 schedulers (self w') = Some ss
          else w1 = w \<and> schedulers (self w') = schedulers (self w)) \<and>
         (if \<not> isTrain (self w) \<or> opt_continue_train op
          then load_networks lsd (opt_load_epoch op) w1 = Done w2 else w2 = w1) \<and>
         print_networks (opt_verbose op) w2 = Done w' \<and> last (log w') = Print MsgRule))
   \<and> (isTrain (self w) \<and>
       make_schedulers gs op (optimizers (self w)) (heap w) = (Inl e, h) \<longrightarrow>
         BaseModel_setup gs lsd op w = Raised e (w\<lparr>heap := h\<rparr>))
   \<and> ((if isTrain (self w)
        then make_schedulers gs op (optimizers (self w)) (heap w) = (Inr ss, h) \<and>
             v1 = w\<lparr>self := (self w)\<lparr>schedulers := Some ss\<rparr>, heap := h\<rparr>
        else v1 = w) \<longrightarrow>
         (if \<not> isTrain (self w) \<or> opt_continue_train op
          then (load_networks lsd (opt_load_epoch op) v1 = Raised e v \<longrightarrow>
                  BaseModel_setup gs lsd op w = Raised e v) \<and>
               (load_networks lsd (opt_load_epoch op) v1 = Done v2 \<longrightarrow>
                  BaseModel_setup gs lsd op w = print_networks (opt_verbose op) v2)
          else BaseModel_setup gs lsd op w = print_networks (opt_verbose op) v1))
   \<and> (\<exists>new. log (world_of (print_networks (opt_verbose op) v2)) =
               log v2 @ Print MsgNetworksInitialized # new)"
proof (intro conjI impI)
  assume d: "BaseModel_setup gs lsd op w = Done w'"
  define w1 where "w1 =
     (if isTrain (self w) then
        (case make_schedulers gs op (optimizers (self w)) (heap w) of
           (Inl e, h) \<Rightarrow> w
         | (Inr ss, h) \<Rightarrow> w\<lparr>self := (self w)\<lparr>schedulers := Some ss\<rparr>, heap := h\<rparr>)
      else w)"
  have tr: "isTrain (self w1) = isTrain (self w)"
    by (auto simp: w1_def split: prod.splits sum.splits)
  from d obtain w2 where
    load: "(if \<not> isTrain (self w) \<or> opt_continue_train op
            then load_networks lsd (opt_load_epoch op) w1 else Done w1) = Done w2"
    and pr: "print_networks (opt_verbose op) w2 = Done w'"
    and mk: "isTrain (self w) \<longrightarrow>
       (\<exists>ss h. make_schedulers gs op (optimizers (self w)) (heap w) = (Inr ss, h))"
    by (auto simp: BaseModel_setup_def w1_def split: if_splits prod.splits sum.splits outcome.splits)
  have s2: "self w2 = self w1"
    using load load_networks_frame[of lsd "opt_load_epoch op" w1]
    by (auto split: if_splits)
  have s': "self w' = self w2"
    using pr print_networks_self[of "opt_verbose op" w2] by simp
  have first: "if isTrain (self w)
          then \<exists>ss h. make_schedulers gs op (optimizers (self w)) (heap w) = (Inr ss, h) \<and>
                 list_all2 (\<lambda>a s. \<exists>h1 h2. gs a op h1 = Inr (s, h2)) (optimizers (self w)) ss \<and>
                 w1 = w\<lparr>self := (self w)\<lparr>schedulers := Some ss\<rparr>, heap := h\<rparr> \<and>
                 schedulers (self w') = Some ss
          else w1 = w \<and> schedulers (self w') = schedulers (self w)"
  proof (cases "isTrain (self w)")
    case True
    with mk obtain ss h where m: "make_schedulers gs op (optimizers (self w)) (heap w) = (Inr ss, h)"
      by blast
    then have w1: "w1 = w\<lparr>self := (self w)\<lparr>schedulers := Some ss\<rparr>, heap := h\<rparr>"
      using True by (simp add: w1_def)
    then have "schedulers (self w') = Some ss" using s2 s' by simp
    with True m w1 make_schedulers_Inr[OF m] show ?thesis by auto
  next
    case False
    then have "w1 = w" by (simp add: w1_def)
    with False s2 s' show ?thesis by simp
  qed
  have second: "if \<not> isTrain (self w) \<or> opt_continue_train op
          then load_networks lsd (opt_load_epoch op) w1 = Done w2 else w2 = w1"
    using load by (auto split: if_splits)
  from first second pr print_networks_last[OF pr]
  show "\<exists>w1 w2.
         (if isTrain (self w)
          then \<exists>ss h. make_schedulers gs op (optimizers (self w)) (heap w) = (Inr ss, h) \<and>
                 list_all2 (\<lambda>a s. \<exists>h1 h2. gs a op h1 = Inr (s, h2)) (optimizers (self w)) ss \<and>
                 w1 = w\<lparr>self := (self w)\<lparr>schedulers := Some ss\<rparr>, heap := h\<rparr> \<and>
                 schedulers (self w') = Some ss
          else w1 = w \<and> schedulers (self w') = schedulers (self w)) \<and>
         (if \<not> isTrain (self w) \<or> opt_continue_train op
          then load_networks lsd (opt_load_epoch op) w1 = Done w2 else w2 = w1) \<and>
         print_networks (opt_verbose op) w2 = Done w' \<and> last (log w') = Print MsgRule"
    by blast
next
  assume "isTrain (self w) \<and>
       make_schedulers gs op (optimizers (self w)) (heap w) = (Inl e, h)"
  then show "BaseModel_setup gs lsd op w = Raised e (w\<lparr>heap := h\<rparr>)"
    by (simp add: BaseModel_setup_def)
next
  assume "if isTrain (self w)
        then make_schedulers gs op (optimizers (self w)) (heap w) = (Inr ss, h) \<and>
             v1 = w\<lparr>self := (self w)\<lparr>schedulers := Some ss\<rparr>, heap := h\<rparr>
        else v1 = w"
  then show "if \<not> isTrain (self w) \<or> opt_continue_train op
          then (load_networks lsd (opt_load_epoch op) v1 = Raised e v \<longrightarrow>
                  BaseModel_setup gs lsd op w = Raised e v) \<and>
               (load_networks lsd (opt_load_epoch op) v1 = Done v2 \<longrightarrow>
                  BaseModel_setup gs lsd op w = print_networks (opt_verbose op) v2)
          else BaseModel_setup gs lsd op w = print_networks (opt_verbose op) v1"
    by (auto simp: BaseModel_setup_def split: if_splits)
next
  show "\<exists>new. log (world_of (print_networks (opt_verbose op) v2)) =
               log v2 @ Print MsgNetworksInitialized # new"
    by (rule print_networks_first)
qed

theorem BaseModel_setup_steps_witness:
  "raised (BaseModel_setup example_gs example_lsd example_options
            (example_world\<lparr>self := example_model\<lparr>isTrain := True, schedulers := None\<rparr>\<rparr>)) = None
   \<and> schedulers (self (world_of (BaseModel_setup example_gs example_lsd example_options
            (example_world\<lparr>self := example_model\<lparr>isTrain := True, schedulers := None\<rparr>\<rparr>))))
       = Some [1]
   \<and> last (log (world_of (BaseModel_setup example_gs example_lsd example_options
            (example_world\<lparr>self := example_model\<lparr>isTrain := True, schedulers := None\<rparr>\<rparr>))))
       = Print MsgRule
   \<and> raised (BaseModel_setup example_gs example_lsd example_options example_world) = None
   \<and> schedulers (self (world_of
         (BaseModel_setup example_gs example_lsd example_options example_world))) = Some [1]
   \<and> raised (BaseModel_setup example_gs example_lsd
               (example_options\<lparr>opt_load_epoch := PStr ''best''\<rparr>) example_world)
       = Some ValueError"
proof -
  let ?T = "example_world\<lparr>self := example_model\<lparr>isTrain := True, schedulers := None\<rparr>\<rparr>"
  have "\<exists>v. BaseModel_setup example_gs example_lsd example_options ?T = Done v"
    by (simp add: BaseModel_setup_def example_world_def example_model_def example_gs_def
        example_options_def print_networks_def print_body_def getattr_self_def
        example_heap_def example_net_def)
  then obtain v where d: "BaseModel_setup example_gs example_lsd example_options ?T = Done v" ..
  have tr: "isTrain (self ?T)" by simp
  have mk: "make_schedulers example_gs example_options (optimizers (self ?T)) (heap ?T) =
      (Inr [1], example_heap)"
    by (simp add: example_world_def example_model_def example_gs_def)
  from BaseModel_setup_steps[of example_gs example_lsd example_options ?T v, THEN conjunct1] d tr
  obtain ss h where "make_schedulers example_gs example_options (optimizers (self ?T)) (heap ?T) =
      (Inr ss, h)" "schedulers (self v) = Some ss" "last (log v) = Print MsgRule"
    by (auto split: if_splits)
  with mk have 1: "schedulers (self v) = Some [1]" "last (log v) = Print MsgRule" by simp_all
  have "\<exists>u. BaseModel_setup example_gs example_lsd example_options example_world = Done u"
    by (simp add: BaseModel_setup_def example_world_def example_model_def
        example_options_def print_networks_def print_body_def getattr_self_def
        example_heap_def example_net_def load_networks_def load_one_def path_join_def
        prepare_state_dict_def example_checkpoint_def od_pop_def example_lsd_def)
  then obtain u where e: "BaseModel_setup example_gs example_lsd example_options example_world = Done u" ..
  have nt: "\<not> isTrain (self example_world)" "schedulers (self example_world) = Some [1]"
    by (simp_all add: example_world_def example_model_def)
  from BaseModel_setup_steps[of example_gs example_lsd example_options example_world u, THEN conjunct1] e nt
  have 2: "schedulers (self u) = Some [1]"
    by (auto split: if_splits)
  let ?B = "example_options\<lparr>opt_load_epoch := PStr ''best''\<rparr>"
  let ?V = "example_world\<lparr>log := [PathExists ''checkpoints/May/best_net_G.pkl'',
                                   Print (MsgNoWeights ''checkpoints/May/best_net_G.pkl'')]\<rparr>"
  have r: "load_networks example_lsd (opt_load_epoch ?B) example_world = Raised ValueError ?V"
    by (simp add: load_networks_def load_one_def example_world_def example_model_def
        path_join_def getattr_self_def)
  have s: "if isTrain (self example_world)
        then make_schedulers example_gs ?B (optimizers (self example_world)) (heap example_world)
               = (Inr [], example_heap) \<and>
             example_world = example_world\<lparr>self := (self example_world)\<lparr>schedulers := Some []\<rparr>,
                                          heap := example_heap\<rparr>
        else example_world = example_world"
    using nt(1) by simp
  from BaseModel_setup_steps[where gs = example_gs and lsd = example_lsd and op = ?B
      and w = example_world and ?v1.0 = example_world and ss = "[]" and h = example_heap
      and e = ValueError and v = ?V] s r nt(1)
  have 3: "BaseModel_setup example_gs example_lsd ?B example_world = Raised ValueError ?V"
    by (simp split: if_splits)
  from d e 1 2 3 show ?thesis by simp
qed

end
